theory Spec2Isabelle
  imports Complex_Main
begin

section \<open>Values of the language\<close>

text \<open>
  A JavaScript Number is NaN, one of the two infinities, or a finite binary64 value.
  A finite value is carried by its exact rational value; every operation that has to
  round (a product, a quotient, the value of a decimal literal) goes through
  \<open>binary64\<close> below, which rounds to the nearest binary64 value, ties to even, and
  overflows to an infinity. The one thing left out is the sign of zero: the library never
  divides by a zero and prints both zeros alike.
\<close>

datatype number = Fin rat | NaN | PosInf | NegInf

text \<open>
  A string is a list of characters, read as code units below 256. A value read out of an
  object is a Number, \<open>undefined\<close>, or an object or function inherited from
  \<open>Object.prototype\<close>.
\<close>

datatype jsval = JNum number | JUndefined | JInherited

fun Number_isFinite :: "number \<Rightarrow> bool" where
  "Number_isFinite (Fin q) = True"
| "Number_isFinite NaN = False"
| "Number_isFinite PosInf = False"
| "Number_isFinite NegInf = False"

fun Math_abs :: "number \<Rightarrow> number" where
  "Math_abs (Fin q) = Fin \<bar>q\<bar>"
| "Math_abs NaN = NaN"
| "Math_abs PosInf = PosInf"
| "Math_abs NegInf = PosInf"

fun Math_floor :: "number \<Rightarrow> number" where
  "Math_floor (Fin q) = Fin (of_int \<lfloor>q\<rfloor>)"
| "Math_floor NaN = NaN"
| "Math_floor PosInf = PosInf"
| "Math_floor NegInf = NegInf"

text \<open>\<open>a >= b\<close>: false as soon as one side is NaN.\<close>

fun js_ge :: "number \<Rightarrow> number \<Rightarrow> bool" where
  "js_ge NaN b = False"
| "js_ge a NaN = False"
| "js_ge PosInf b = True"
| "js_ge NegInf NegInf = True"
| "js_ge NegInf b = False"
| "js_ge (Fin x) PosInf = False"
| "js_ge (Fin x) NegInf = True"
| "js_ge (Fin x) (Fin y) = (y \<le> x)"

text \<open>\<open>a < b\<close> and \<open>a > b\<close>, false as well when one side is NaN.\<close>

fun js_lt :: "number \<Rightarrow> number \<Rightarrow> bool" where
  "js_lt NaN b = False"
| "js_lt a NaN = False"
| "js_lt a b = (\<not> js_ge a b)"

definition js_gt :: "number \<Rightarrow> number \<Rightarrow> bool" where
  "js_gt a b = js_lt b a"

text \<open>\<open>b\<close> to an integer power, by repeated squaring.\<close>

function ipow :: "rat \<Rightarrow> int \<Rightarrow> rat" where
  "ipow b e =
     (if e < 0 then 1 / ipow b (- e)
      else if e = 0 then 1
      else if even e then (let h = ipow b (e div 2) in h * h)
      else (let h = ipow b (e div 2) in b * h * h))"
  by pat_completeness auto
termination
  by (relation "measure (\<lambda>(b, e). if e < 0 then nat (- e) + 1 else nat e)") auto

declare ipow.simps [simp del]

text \<open>The number of binary digits of a positive integer.\<close>

function bitLength :: "int \<Rightarrow> int" where
  "bitLength n = (if n \<le> 0 then 0 else 1 + bitLength (n div 2))"
  by pat_completeness auto
termination
  by (relation "measure nat") auto

declare bitLength.simps [simp del]

text \<open>The \<open>e\<close> with \<open>2 ^ e \<le> a < 2 ^ (e + 1)\<close>, for a positive \<open>a\<close>.\<close>

definition ilog2 :: "rat \<Rightarrow> int" where
  "ilog2 a =
     (let (p, q) = quotient_of a;
          e = bitLength p - bitLength q
      in if ipow 2 e \<le> a then e else e - 1)"

text \<open>The nearest integer, the even one of two.\<close>

definition roundHalfEven :: "rat \<Rightarrow> int" where
  "roundHalfEven x =
     (let f = \<lfloor>x\<rfloor>;
          d = x - of_int f
      in if d < 1 / 2 then f
         else if 1 / 2 < d then f + 1
         else if even f then f else f + 1)"

text \<open>
  The binary64 value of a real number: 53 significant binary digits at the exponent of
  the number, but no exponent below \<open>- 1022\<close> (the subnormal range), rounded to nearest,
  ties to even; a result of magnitude \<open>2 ^ 1024\<close> is an infinity.
\<close>

definition binary64 :: "rat \<Rightarrow> number" where
  "binary64 q =
     (if q = 0 then Fin 0
      else
        (let a = \<bar>q\<bar>;
             e = max (ilog2 a) (- 1022);
             u = ipow 2 (e - 52);
             r = of_int (roundHalfEven (a / u)) * u
         in if ipow 2 1024 \<le> r then (if 0 < q then PosInf else NegInf)
            else Fin (if 0 < q then r else - r)))"

text \<open>
  The magnitudes that 53 binary digits can carry at an exponent of the format or above:
  every finite result of \<open>binary64\<close> has such a magnitude, and such a magnitude below
  \<open>2 ^ 1024\<close> is its own rounding. (A predicate for the proofs; it is not run.)
\<close>

definition dyadic53 :: "rat \<Rightarrow> bool" where
  "dyadic53 a \<longleftrightarrow> (\<exists>n t. a = of_int n * 2 powi t \<and> - 1074 \<le> t \<and> 0 \<le> n \<and> n \<le> 2 ^ 53)"

text \<open>\<open>a / b\<close> and \<open>a * b\<close> on Numbers. Zero has no sign here, so a finite
  non-zero value divided by zero is the infinity of the dividend's sign.\<close>

fun js_neg :: "number \<Rightarrow> number" where
  "js_neg (Fin q) = Fin (- q)"
| "js_neg NaN = NaN"
| "js_neg PosInf = NegInf"
| "js_neg NegInf = PosInf"

fun js_div :: "number \<Rightarrow> number \<Rightarrow> number" where
  "js_div NaN b = NaN"
| "js_div a NaN = NaN"
| "js_div (Fin x) (Fin y) =
     (if y = 0 then (if x = 0 then NaN else if 0 < x then PosInf else NegInf)
      else binary64 (x / y))"
| "js_div (Fin x) PosInf = Fin 0"
| "js_div (Fin x) NegInf = Fin 0"
| "js_div PosInf (Fin y) = (if 0 \<le> y then PosInf else NegInf)"
| "js_div NegInf (Fin y) = (if 0 \<le> y then NegInf else PosInf)"
| "js_div PosInf b = NaN"
| "js_div NegInf b = NaN"

fun js_mul :: "number \<Rightarrow> number \<Rightarrow> number" where
  "js_mul NaN b = NaN"
| "js_mul a NaN = NaN"
| "js_mul (Fin x) (Fin y) = binary64 (x * y)"
| "js_mul (Fin x) PosInf = (if x = 0 then NaN else if 0 < x then PosInf else NegInf)"
| "js_mul (Fin x) NegInf = (if x = 0 then NaN else if 0 < x then NegInf else PosInf)"
| "js_mul PosInf (Fin y) = (if y = 0 then NaN else if 0 < y then PosInf else NegInf)"
| "js_mul NegInf (Fin y) = (if y = 0 then NaN else if 0 < y then NegInf else PosInf)"
| "js_mul PosInf PosInf = PosInf"
| "js_mul PosInf NegInf = NegInf"
| "js_mul NegInf PosInf = NegInf"
| "js_mul NegInf NegInf = PosInf"

text \<open>\<open>ToNumber\<close> of a value read out of an object: \<open>undefined\<close>, a function and
  a plain object all convert to NaN.\<close>

fun ToNumber :: "jsval \<Rightarrow> number" where
  "ToNumber (JNum n) = n"
| "ToNumber JUndefined = NaN"
| "ToNumber JInherited = NaN"

section \<open>Characters and strings\<close>

definition decimalDigitChars :: string where
  "decimalDigitChars = ''0123456789''"

definition capitalLetters :: string where
  "capitalLetters = ''ABCDEFGHIJKLMNOPQRSTUVWXYZ''"

definition smallLetters :: string where
  "smallLetters = ''abcdefghijklmnopqrstuvwxyz''"

text \<open>The letters above 127 that have their other case below 256: \<open>U+00C0\<close> to
  \<open>U+00DE\<close> without the multiplication sign, and \<open>U+00E0\<close> to \<open>U+00FE\<close> without
  the division sign.\<close>

definition capitalLatin1 :: string where
  "capitalLatin1 =
     [CHR 0xC0, CHR 0xC1, CHR 0xC2, CHR 0xC3, CHR 0xC4, CHR 0xC5, CHR 0xC6, CHR 0xC7,
      CHR 0xC8, CHR 0xC9, CHR 0xCA, CHR 0xCB, CHR 0xCC, CHR 0xCD, CHR 0xCE, CHR 0xCF,
      CHR 0xD0, CHR 0xD1, CHR 0xD2, CHR 0xD3, CHR 0xD4, CHR 0xD5, CHR 0xD6,
      CHR 0xD8, CHR 0xD9, CHR 0xDA, CHR 0xDB, CHR 0xDC, CHR 0xDD, CHR 0xDE]"

definition smallLatin1 :: string where
  "smallLatin1 =
     [CHR 0xE0, CHR 0xE1, CHR 0xE2, CHR 0xE3, CHR 0xE4, CHR 0xE5, CHR 0xE6, CHR 0xE7,
      CHR 0xE8, CHR 0xE9, CHR 0xEA, CHR 0xEB, CHR 0xEC, CHR 0xED, CHR 0xEE, CHR 0xEF,
      CHR 0xF0, CHR 0xF1, CHR 0xF2, CHR 0xF3, CHR 0xF4, CHR 0xF5, CHR 0xF6,
      CHR 0xF8, CHR 0xF9, CHR 0xFA, CHR 0xFB, CHR 0xFC, CHR 0xFD, CHR 0xFE]"

definition isDigit :: "char \<Rightarrow> bool" where
  "isDigit c \<longleftrightarrow> c \<in> set decimalDigitChars"

text \<open>White space and line terminators, as \<open>trim\<close>, \<open>\s\<close> and
  \<open>parseFloat\<close> see them: TAB, LF, VT, FF, CR, space and NBSP.\<close>

definition isWhiteSpace :: "char \<Rightarrow> bool" where
  "isWhiteSpace c \<longleftrightarrow>
     c \<in> set [CHR 0x09, CHR 0x0A, CHR 0x0B, CHR 0x0C, CHR 0x0D, CHR 0x20, CHR 0xA0]"

text \<open>A word character of a regular expression: \<open>[A-Za-z0-9_]\<close>.\<close>

definition isWordChar :: "char \<Rightarrow> bool" where
  "isWordChar c \<longleftrightarrow> c \<in> set (capitalLetters @ smallLetters @ decimalDigitChars @ ''_'')"

definition lowerChar :: "char \<Rightarrow> char" where
  "lowerChar c =
     (case map_of (zip (capitalLetters @ capitalLatin1) (smallLetters @ smallLatin1)) c of
        Some l \<Rightarrow> l
      | None \<Rightarrow> c)"

definition toLowerCase :: "string \<Rightarrow> string" where
  "toLowerCase s = map lowerChar s"

text \<open>\<open>toUpperCase\<close>: sharp s becomes \<open>SS\<close>; the micro sign and y with diaeresis
  have their capitals above 255 and are left as they are (the library upper-cases keys
  of its unit tables only).\<close>

definition upperChar :: "char \<Rightarrow> string" where
  "upperChar c =
     (case map_of (zip (smallLetters @ smallLatin1) (capitalLetters @ capitalLatin1)) c of
        Some u \<Rightarrow> [u]
      | None \<Rightarrow> if c = CHR 0xDF then ''SS'' else [c])"

definition toUpperCase :: "string \<Rightarrow> string" where
  "toUpperCase s = concat (map upperChar s)"

definition trim :: "string \<Rightarrow> string" where
  "trim s = rev (dropWhile isWhiteSpace (rev (dropWhile isWhiteSpace s)))"

text \<open>A string is truthy when it is not empty.\<close>

definition truthy :: "string \<Rightarrow> bool" where
  "truthy s \<longleftrightarrow> s \<noteq> []"

section \<open>The unit tables of utils.ts\<close>

definition UNITS :: "(string \<times> nat) list" where
  "UNITS = [(''B'', 0), (''KB'', 1), (''MB'', 2), (''GB'', 3), (''TB'', 4), (''PB'', 5),
            (''EB'', 6), (''ZB'', 7), (''YB'', 8)]"

text \<open>An object built by \<open>Object.fromEntries\<close> is an ordinary object: its own
  properties are the entries, and it inherits the properties of \<open>Object.prototype\<close>.\<close>

type_synonym object = "(string \<times> rat) list"

definition Object_prototype_keys :: "string list" where
  "Object_prototype_keys =
     [''constructor'', ''hasOwnProperty'', ''isPrototypeOf'', ''propertyIsEnumerable'',
      ''toLocaleString'', ''toString'', ''valueOf'', ''__proto__'', ''__defineGetter__'',
      ''__defineSetter__'', ''__lookupGetter__'', ''__lookupSetter__'']"

text \<open>\<open>key in obj\<close> is true of an own property and of an inherited one.\<close>

definition js_in :: "string \<Rightarrow> object \<Rightarrow> bool" where
  "js_in k obj \<longleftrightarrow> k \<in> set (map fst obj) \<or> k \<in> set Object_prototype_keys"

text \<open>\<open>obj[key]\<close>.\<close>

definition js_get :: "object \<Rightarrow> string \<Rightarrow> jsval" where
  "js_get obj k =
     (case map_of obj k of
        Some v \<Rightarrow> JNum (Fin v)
      | None \<Rightarrow> if k \<in> set Object_prototype_keys then JInherited else JUndefined)"

definition UNIT_VALUE_BY_LABEL :: object where
  "UNIT_VALUE_BY_LABEL = map (\<lambda>(unit, power). (unit, 1024 ^ power)) UNITS"

definition UNIT_VALUE_BY_LOWER :: object where
  "UNIT_VALUE_BY_LOWER = map (\<lambda>(unit, power). (toLowerCase unit, 1024 ^ power)) UNITS"

definition UNIT_THRESHOLDS :: "(string \<times> rat) list" where
  "UNIT_THRESHOLDS = map (\<lambda>(unit, power). (unit, 1024 ^ power)) (rev UNITS)"

definition PARSEABLE_UNITS :: "string list" where
  "PARSEABLE_UNITS = filter (\<lambda>unit. unit \<noteq> ''b'') (map (\<lambda>(unit, power). toLowerCase unit) UNITS)"

definition toByteUnit :: "string \<Rightarrow> string option" where
  "toByteUnit v =
     (let normalized = toLowerCase v
      in if js_in normalized UNIT_VALUE_BY_LOWER then Some normalized else None)"

definition toUnitLabel :: "string \<Rightarrow> string option" where
  "toUnitLabel v =
     (case toByteUnit v of
        None \<Rightarrow> None
      | Some lowerUnit \<Rightarrow> if \<not> truthy lowerUnit then None else Some (toUpperCase lowerUnit))"

text \<open>The scan of \<open>resolveUnit\<close> over the thresholds, largest first.\<close>

fun scanThresholds :: "number \<Rightarrow> (string \<times> rat) list \<Rightarrow> string" where
  "scanThresholds magnitude [] = ''B''"
| "scanThresholds magnitude ((unit, threshold) # rest) =
     (if js_ge magnitude (Fin threshold) then unit else scanThresholds magnitude rest)"

definition resolveUnit :: "number \<Rightarrow> string option \<Rightarrow> string" where
  "resolveUnit magnitude preferredUnit =
     (case (case preferredUnit of
              None \<Rightarrow> None
            | Some p \<Rightarrow> if truthy p
                        then (case toUnitLabel p of
                                None \<Rightarrow> None
                              | Some explicitUnit \<Rightarrow> if truthy explicitUnit then Some explicitUnit else None)
                        else None) of
        Some explicitUnit \<Rightarrow> explicitUnit
      | None \<Rightarrow> scanThresholds magnitude UNIT_THRESHOLDS)"

section \<open>The other resolveUnit, of part_001\<close>

text \<open>
  The second utility module selects the unit by \<open>Math.floor(Math.log(magnitude) /
  LOG_1024)\<close>, cut at 8, and reads \<open>UNITS[e]\<close>. The language leaves the result of
  \<open>Math.log\<close> to the engine (an approximation of the logarithm), so the function is a
  parameter here. \<open>UNITS[e]\<close> is \<open>undefined\<close> (\<open>None\<close>) unless \<open>e\<close> is one of the
  integers 0 to 8.
\<close>

definition UNITS_at :: "number \<Rightarrow> string option" where
  "UNITS_at e =
     (case e of
        Fin q \<Rightarrow> if 0 \<le> q \<and> q \<le> 8 \<and> of_int \<lfloor>q\<rfloor> = q then Some (fst (UNITS ! nat \<lfloor>q\<rfloor>)) else None
      | _ \<Rightarrow> None)"

definition resolveUnit_part_001 :: "(number \<Rightarrow> number) \<Rightarrow> number \<Rightarrow> string option \<Rightarrow> string option" where
  "resolveUnit_part_001 Math_log magnitude preferredUnit =
     (case (case preferredUnit of
              None \<Rightarrow> None
            | Some p \<Rightarrow> if truthy p
                        then (case toUnitLabel p of
                                None \<Rightarrow> None
                              | Some explicitUnit \<Rightarrow> if truthy explicitUnit then Some explicitUnit else None)
                        else None) of
        Some explicitUnit \<Rightarrow> Some explicitUnit
      | None \<Rightarrow>
          if js_lt magnitude (Fin 1) then Some ''B''
          else
            (let e = Math_floor (js_div (Math_log magnitude) (Math_log (Fin 1024)));
                 e' = (if js_gt e (Fin 8) then Fin 8 else e)
             in UNITS_at e'))"

text \<open>
  The values that the \<open>log\<close> of fdlibm (the one of V8) computes in binary64 for 1024,
  for \<open>1024 ^ 5 - 1\<close> and for \<open>1024 ^ 5\<close>: \<open>0x1.bb9d3beb8c86bp+2\<close> for the first
  and \<open>0x1.1542457337d43p+5\<close> for the other two, which are also the binary64 values
  nearest to the three logarithms. The table stands for \<open>Math.log\<close> at these arguments.
\<close>

definition Math_log_sample :: "number \<Rightarrow> number" where
  "Math_log_sample x =
     (if x = Fin 1024 then Fin (7804143460206699 / 2 ^ 50)
      else if x = Fin (1024 ^ 5 - 1) \<or> x = Fin (1024 ^ 5) then Fin (4877589662629187 / 2 ^ 47)
      else NaN)"

section \<open>Rendering a Number\<close>

datatype error = RangeError | TypeError string

text \<open>The decimal digits of a non-negative integer.\<close>

function decimalDigits :: "int \<Rightarrow> string" where
  "decimalDigits n =
     (if n < 10 then [decimalDigitChars ! nat n]
      else decimalDigits (n div 10) @ [decimalDigitChars ! nat (n mod 10)])"
  by pat_completeness auto
termination
  by (relation "measure nat") auto

declare decimalDigits.simps [simp del]

definition pow10 :: "int \<Rightarrow> rat" where
  "pow10 e = ipow 10 e"

text \<open>The integer nearest to a non-negative value, the larger one of two.\<close>

definition roundHalfUp :: "rat \<Rightarrow> int" where
  "roundHalfUp x = \<lfloor>x + 1 / 2\<rfloor>"

text \<open>The \<open>n\<close> with \<open>10 ^ (n - 1) \<le> x < 10 ^ n\<close>, for a positive \<open>x\<close>.\<close>

definition decimalExponent :: "rat \<Rightarrow> int" where
  "decimalExponent x =
     (let (a, b) = quotient_of x;
          n0 = int (length (decimalDigits a)) - int (length (decimalDigits b))
      in if pow10 n0 \<le> x then n0 + 1 else n0)"

text \<open>
  \<open>Number::toString\<close> in radix 10 prints the shortest digits that read back as the
  same binary64 value: the least \<open>k\<close> with a \<open>k\<close>-digit integer \<open>s\<close> and an \<open>n\<close>
  such that \<open>s * 10 ^ (n - k)\<close> rounds to \<open>x\<close>, and among those the \<open>s\<close> nearest to
  \<open>x\<close> (the even one of two). For \<open>k\<close> digits the candidates are the two neighbours of
  \<open>x\<close> on the grid of \<open>k\<close>-digit decimals at the decimal exponent of \<open>x\<close>.
\<close>

definition digitsCandidate :: "rat \<Rightarrow> int \<Rightarrow> int \<Rightarrow> (int \<times> int) option" where
  "digitsCandidate x n0 k =
     (let scale = pow10 (n0 - k);
          lo = \<lfloor>x / scale\<rfloor>;
          hi = lo + 1;
          okLo = (binary64 (of_int lo * scale) = Fin x);
          okHi = (binary64 (of_int hi * scale) = Fin x);
          dLo = x - of_int lo * scale;
          dHi = of_int hi * scale - x;
          useLo = (okLo \<and> (\<not> okHi \<or> dLo < dHi \<or> (dLo = dHi \<and> even lo)))
      in if useLo then Some (lo, n0)
         else if okHi then (if hi = 10 ^ nat k then Some (10 ^ nat (k - 1), n0 + 1) else Some (hi, n0))
         else None)"

fun shortestDigits :: "rat \<Rightarrow> int \<Rightarrow> int list \<Rightarrow> int \<times> int" where
  "shortestDigits x n0 [] = (\<lfloor>x / pow10 (n0 - 17)\<rfloor>, n0)"
| "shortestDigits x n0 (k # ks) =
     (case digitsCandidate x n0 k of
        Some sn \<Rightarrow> sn
      | None \<Rightarrow> shortestDigits x n0 ks)"

definition positiveToString :: "rat \<Rightarrow> string" where
  "positiveToString x =
     (let (s, n) = shortestDigits x (decimalExponent x) [1, 2, 3, 4, 5, 6, 7, 8, 9, 10, 11, 12, 13, 14, 15, 16, 17];
          ds = decimalDigits s;
          k = int (length ds);
          expo = (if 0 \<le> n - 1 then ''+'' else ''-'') @ decimalDigits \<bar>n - 1\<bar>
      in if k \<le> n \<and> n \<le> 21 then ds @ replicate (nat (n - k)) (CHR ''0'')
         else if 0 < n \<and> n \<le> 21 then take (nat n) ds @ ''.'' @ drop (nat n) ds
         else if - 6 < n \<and> n \<le> 0 then ''0.'' @ replicate (nat (- n)) (CHR ''0'') @ ds
         else if k = 1 then ds @ ''e'' @ expo
         else take 1 ds @ ''.'' @ drop 1 ds @ ''e'' @ expo)"

fun Number_toString :: "number \<Rightarrow> string" where
  "Number_toString NaN = ''NaN''"
| "Number_toString PosInf = ''Infinity''"
| "Number_toString NegInf = ''-Infinity''"
| "Number_toString (Fin x) =
     (if x = 0 then ''0''
      else if x < 0 then ''-'' @ positiveToString (- x)
      else positiveToString x)"

text \<open>\<open>ToIntegerOrInfinity\<close>: NaN is 0, a finite value is truncated toward zero.\<close>

fun ToIntegerOrInfinity :: "number \<Rightarrow> int option" where
  "ToIntegerOrInfinity NaN = Some 0"
| "ToIntegerOrInfinity (Fin q) = Some (if 0 \<le> q then \<lfloor>q\<rfloor> else - \<lfloor>- q\<rfloor>)"
| "ToIntegerOrInfinity PosInf = None"
| "ToIntegerOrInfinity NegInf = None"

text \<open>
  \<open>Number.prototype.toFixed\<close>: a RangeError for a digit count outside 0..100; the
  text of \<open>Number::toString\<close> for a value that is not finite or is at least
  \<open>10 ^ 21\<close>; otherwise the nearest multiple of \<open>10 ^ - f\<close> (the larger of two),
  written with exactly \<open>f\<close> fraction digits.
\<close>

definition fixedDigits :: "rat \<Rightarrow> nat \<Rightarrow> string" where
  "fixedDigits x f =
     (let n = roundHalfUp (x * 10 ^ f);
          m = decimalDigits n
      in if f \<noteq> 0
         then (let m' = (if length m \<le> f then replicate (f + 1 - length m) (CHR ''0'') @ m else m);
                   k = length m'
               in take (k - f) m' @ ''.'' @ drop (k - f) m')
         else m)"

definition toFixed :: "number \<Rightarrow> number \<Rightarrow> error + string" where
  "toFixed x fractionDigits =
     (case ToIntegerOrInfinity fractionDigits of
        None \<Rightarrow> Inl RangeError
      | Some f \<Rightarrow>
          if f < 0 \<or> 100 < f then Inl RangeError
          else (case x of
                  Fin q \<Rightarrow>
                    (let s = (if q < 0 then ''-'' else []);
                         a = (if q < 0 then - q else q)
                     in if 10 ^ 21 \<le> a then Inr (s @ Number_toString (Fin a))
                        else Inr (s @ fixedDigits a (nat f)))
                | _ \<Rightarrow> Inr (Number_toString x)))"

section \<open>The regular expressions of the formatter\<close>

text \<open>
  \<open>FORMAT_DECIMALS_RE = /(?:\.0*|(\.[^0]+)0+)$/\<close> tried at the start of a string:
  a dot followed by zeros only up to the end (no group), or a dot, a non-empty run of
  characters other than \<open>0\<close> (group 1 with the dot), and a non-empty run of zeros up to
  the end. The result is group 1, when the expression matches here.
\<close>

definition FORMAT_DECIMALS_RE_at :: "string \<Rightarrow> string option option" where
  "FORMAT_DECIMALS_RE_at s =
     (case s of
        [] \<Rightarrow> None
      | c # rest \<Rightarrow>
          if c \<noteq> CHR ''.'' then None
          else if list_all (\<lambda>d. d = CHR ''0'') rest then Some None
          else (let a = takeWhile (\<lambda>d. d \<noteq> CHR ''0'') rest;
                    b = dropWhile (\<lambda>d. d \<noteq> CHR ''0'') rest
                in if a \<noteq> [] \<and> b \<noteq> [] \<and> list_all (\<lambda>d. d = CHR ''0'') b
                   then Some (Some (c # a)) else None))"

text \<open>\<open>s.replace(FORMAT_DECIMALS_RE, '$1')\<close>: the leftmost match, which runs to the end
  of the string, is replaced by group 1 (empty when the group did not take part).\<close>

fun replace_FORMAT_DECIMALS_RE :: "string \<Rightarrow> string" where
  "replace_FORMAT_DECIMALS_RE [] = []"
| "replace_FORMAT_DECIMALS_RE (c # cs) =
     (case FORMAT_DECIMALS_RE_at (c # cs) of
        Some None \<Rightarrow> []
      | Some (Some g) \<Rightarrow> g
      | None \<Rightarrow> c # replace_FORMAT_DECIMALS_RE cs)"

text \<open>
  \<open>GetSubstitution\<close> for an empty match with one capture group: \<open>passed\<close> and
  \<open>ahead\<close> are the parts of the subject around the match, \<open>group1\<close> the capture.
\<close>

fun GetSubstitution :: "string \<Rightarrow> string \<Rightarrow> string \<Rightarrow> string \<Rightarrow> string" where
  "GetSubstitution passed ahead group1 [] = []"
| "GetSubstitution passed ahead group1 [c] = [c]"
| "GetSubstitution passed ahead group1 (c # d # rest) =
     (if c \<noteq> CHR ''$'' then c # GetSubstitution passed ahead group1 (d # rest)
      else if d = CHR ''$'' then CHR ''$'' # GetSubstitution passed ahead group1 rest
      else if d = CHR ''&'' then GetSubstitution passed ahead group1 rest
      else if d = CHR 0x60 then passed @ GetSubstitution passed ahead group1 rest
      else if d = CHR 0x27 then ahead @ GetSubstitution passed ahead group1 rest
      else if d = CHR ''1'' then group1 @ GetSubstitution passed ahead group1 rest
      else if d = CHR ''0'' \<and> (case rest of e # rest' \<Rightarrow> e = CHR ''1'' | [] \<Rightarrow> False)
        then group1 @ GetSubstitution passed ahead group1 (tl rest)
      else if d = CHR ''0'' \<and> (case rest of e # rest' \<Rightarrow> e = CHR ''0'' | [] \<Rightarrow> False)
        then c # d # CHR ''0'' # GetSubstitution passed ahead group1 (tl rest)
      else c # GetSubstitution passed ahead group1 (d # rest))"

text \<open>
  \<open>FORMAT_THOUSANDS_RE = /\B(?=(\d{3})+(?!\d))/g\<close> at the position between \<open>passed\<close>
  and \<open>ahead\<close>: not a word boundary, and the digits that follow are a positive
  multiple of three in number. Group 1 is the last three of them.
\<close>

definition FORMAT_THOUSANDS_RE_at :: "string \<Rightarrow> string \<Rightarrow> string option" where
  "FORMAT_THOUSANDS_RE_at passed ahead =
     (let wordBefore = (passed \<noteq> [] \<and> isWordChar (last passed));
          wordAfter = (ahead \<noteq> [] \<and> isWordChar (hd ahead));
          run = takeWhile isDigit ahead
      in if wordBefore = wordAfter \<and> 3 \<le> length run \<and> length run mod 3 = 0
         then Some (drop (length run - 3) run) else None)"

text \<open>\<open>subject.replace(FORMAT_THOUSANDS_RE, separator)\<close>, walking the positions of the
  subject from left to right; \<open>passed\<close> is the part already walked.\<close>

fun replace_FORMAT_THOUSANDS_RE :: "string \<Rightarrow> string \<Rightarrow> string \<Rightarrow> string" where
  "replace_FORMAT_THOUSANDS_RE separator passed [] = []"
| "replace_FORMAT_THOUSANDS_RE separator passed (c # cs) =
     (case FORMAT_THOUSANDS_RE_at passed (c # cs) of
        Some g \<Rightarrow> GetSubstitution passed (c # cs) g separator
      | None \<Rightarrow> [])
     @ c # replace_FORMAT_THOUSANDS_RE separator (passed @ [c]) cs"

text \<open>\<open>s.split('.')\<close>.\<close>

fun split_dot :: "string \<Rightarrow> string list" where
  "split_dot [] = [[]]"
| "split_dot (c # cs) =
     (if c = CHR ''.'' then [] # split_dot cs
      else (case split_dot cs of p # ps \<Rightarrow> (c # p) # ps | [] \<Rightarrow> [[c]]))"

section \<open>formatValue\<close>

definition formatValue :: "number \<Rightarrow> string \<Rightarrow> number \<Rightarrow> bool \<Rightarrow> string \<Rightarrow> error + string" where
  "formatValue v unit decimalPlaces fixedDecimals thousandsSeparator =
     (case toUnitLabel unit of
        None \<Rightarrow> Inr (Number_toString NaN)
      | Some normalizedUnit \<Rightarrow>
          if \<not> truthy normalizedUnit then Inr (Number_toString NaN)
          else
            (let divisor = js_get UNIT_VALUE_BY_LABEL normalizedUnit
             in case toFixed (js_div v (ToNumber divisor)) decimalPlaces of
                  Inl e \<Rightarrow> Inl e
                | Inr fixed \<Rightarrow>
                    (let stripped = (if \<not> fixedDecimals then replace_FORMAT_DECIMALS_RE fixed else fixed)
                     in if truthy thousandsSeparator
                        then (let parts = split_dot stripped;
                                  integerPart = hd parts;
                                  groupedInteger = replace_FORMAT_THOUSANDS_RE thousandsSeparator [] integerPart
                              in case tl parts of
                                   decimalPart # more \<Rightarrow> Inr (groupedInteger @ ''.'' @ decimalPart)
                                 | [] \<Rightarrow> Inr groupedInteger)
                        else Inr stripped)))"

section \<open>formatBytes\<close>

datatype format_output = Output_string | Output_array | Output_object

record FormatBytesOptions =
  decimalPlaces :: "number option"
  fixedDecimals :: "bool option"
  "output" :: "format_output option"
  thousandsSeparator :: "string option"
  unit :: "string option"
  unitSeparator :: "string option"

record FormatBytesDetail =
  bytes :: number
  unit :: string
  "value" :: string

datatype FormatBytesResult =
  FormatString string | FormatArray string string | FormatObject FormatBytesDetail

text \<open>\<open>options = {}\<close>: every option is absent.\<close>

definition noFormatOptions :: FormatBytesOptions where
  "noFormatOptions =
     \<lparr>decimalPlaces = None, fixedDecimals = None, FormatBytesOptions.output = None,
      thousandsSeparator = None, FormatBytesOptions.unit = None, unitSeparator = None\<rparr>"

text \<open>The result is \<open>Inl\<close> an exception raised, \<open>Inr None\<close> for \<open>null\<close>, and
  \<open>Inr (Some r)\<close> for a value returned.\<close>

definition formatBytes :: "number \<Rightarrow> FormatBytesOptions \<Rightarrow> error + FormatBytesResult option" where
  "formatBytes v options =
     (if \<not> Number_isFinite v then Inr None
      else
        (let places = (case decimalPlaces options of None \<Rightarrow> Fin 2 | Some d \<Rightarrow> d);
             fixed = (case fixedDecimals options of None \<Rightarrow> False | Some b \<Rightarrow> b);
             thousands = (case thousandsSeparator options of None \<Rightarrow> [] | Some s \<Rightarrow> s);
             preferredUnit = FormatBytesOptions.unit options;
             separator = (case unitSeparator options of None \<Rightarrow> [] | Some s \<Rightarrow> s);
             shape = (case FormatBytesOptions.output options of None \<Rightarrow> Output_string | Some out \<Rightarrow> out);
             unit' = resolveUnit (Math_abs v) preferredUnit
         in case formatValue v unit' places fixed thousands of
              Inl e \<Rightarrow> Inl e
            | Inr str \<Rightarrow>
                (case shape of
                   Output_array \<Rightarrow> Inr (Some (FormatArray str unit'))
                 | Output_object \<Rightarrow>
                     Inr (Some (FormatObject
                       \<lparr>FormatBytesDetail.bytes = v, FormatBytesDetail.unit = unit',
                        FormatBytesDetail.value = str\<rparr>))
                 | Output_string \<Rightarrow> Inr (Some (FormatString (str @ separator @ unit'))))))"

section \<open>Reading a string\<close>

text \<open>
  The canonical form of a character under the flag \<open>i\<close> (without \<open>u\<close>): its capital,
  when that is one character.
\<close>

definition Canonicalize :: "char \<Rightarrow> char" where
  "Canonicalize c = (case upperChar c of [u] \<Rightarrow> u | _ \<Rightarrow> c)"

definition digitValue :: "char \<Rightarrow> int" where
  "digitValue c =
     (case map_of (zip decimalDigitChars [0, 1, 2, 3, 4, 5, 6, 7, 8, 9]) c of
        Some d \<Rightarrow> d
      | None \<Rightarrow> 0)"

definition digitsValue :: "string \<Rightarrow> int" where
  "digitsValue ds = foldl (\<lambda>a c. 10 * a + digitValue c) 0 ds"

text \<open>
  \<open>PARSE_RE = /^([+-]?\d+(?:\.\d+)?)\s*(kb|mb|gb|tb|pb|eb|zb|yb|b)$/i\<close>. Every part
  of the expression can start only where the part before it cannot go on, so the greedy
  reading is the only one: a sign, the digits, a dot with digits when both are there, the
  white space, and what is left has to be one of the unit tokens. The result is the two
  groups.
\<close>

definition PARSE_RE_exec :: "string \<Rightarrow> (string \<times> string) option" where
  "PARSE_RE_exec s =
     (let sign = (case s of c # cs \<Rightarrow> if c = CHR ''+'' \<or> c = CHR ''-'' then [c] else [] | [] \<Rightarrow> []);
          r0 = drop (length sign) s;
          ds = takeWhile isDigit r0;
          r1 = dropWhile isDigit r0;
          frac = (case r1 of
                    c # cs \<Rightarrow> if c = CHR ''.'' \<and> takeWhile isDigit cs \<noteq> [] then c # takeWhile isDigit cs else []
                  | [] \<Rightarrow> []);
          r2 = drop (length frac) r1;
          token = dropWhile isWhiteSpace r2
      in if ds \<noteq> [] \<and> map Canonicalize token \<in> set (map (map Canonicalize) (PARSEABLE_UNITS @ [''b'']))
         then Some (sign @ ds @ frac, token) else None)"

text \<open>
  \<open>Number.parseFloat\<close>: the binary64 value of the longest prefix, after leading white
  space, that is a \<open>StrDecimalLiteral\<close>, and NaN when there is none. What follows the
  prefix is ignored.
\<close>

definition exponentPart :: "string \<Rightarrow> int" where
  "exponentPart s =
     (case s of
        [] \<Rightarrow> 0
      | e # r \<Rightarrow>
          if e = CHR ''e'' \<or> e = CHR ''E''
          then (let sign = (case r of c # cs \<Rightarrow> if c = CHR ''+'' \<or> c = CHR ''-'' then [c] else [] | [] \<Rightarrow> []);
                    ds = takeWhile isDigit (drop (length sign) r)
                in if ds = [] then 0
                   else if sign = ''-'' then - digitsValue ds else digitsValue ds)
          else 0)"

definition unsignedDecimalLiteral :: "string \<Rightarrow> number" where
  "unsignedDecimalLiteral s =
     (if take 8 s = ''Infinity'' then PosInf
      else
        (let ip = takeWhile isDigit s;
             r1 = dropWhile isDigit s;
             dot = (case r1 of c # cs \<Rightarrow> c = CHR ''.'' | [] \<Rightarrow> False);
             fp = (if dot then takeWhile isDigit (tl r1) else []);
             r2 = (if dot then dropWhile isDigit (tl r1) else r1)
         in if ip = [] \<and> fp = [] then NaN
            else binary64 ((of_int (digitsValue ip) + of_int (digitsValue fp) / 10 ^ length fp)
                           * pow10 (exponentPart r2))))"

definition parseFloat :: "string \<Rightarrow> number" where
  "parseFloat s =
     (let t = dropWhile isWhiteSpace s
      in case t of
           [] \<Rightarrow> NaN
         | c # cs \<Rightarrow>
             if c = CHR ''+'' then unsignedDecimalLiteral cs
             else if c = CHR ''-'' then js_neg (unsignedDecimalLiteral cs)
             else unsignedDecimalLiteral t)"

section \<open>parseInput and toBytes\<close>

record ParsedInput =
  floatValue :: number
  unit :: string

definition parseInput :: "string \<Rightarrow> ParsedInput option" where
  "parseInput v =
     (let trimmed = trim v
      in case PARSE_RE_exec trimmed of
           Some (group1, group2) \<Rightarrow>
             (let fv = parseFloat group1
              in case toByteUnit group2 of
                   None \<Rightarrow> None
                 | Some unit' \<Rightarrow>
                     if \<not> (Number_isFinite fv \<and> truthy unit') then None
                     else Some \<lparr>floatValue = fv, ParsedInput.unit = unit'\<rparr>)
         | None \<Rightarrow>
             (let fv = parseFloat trimmed
              in if \<not> Number_isFinite fv then None
                 else Some \<lparr>floatValue = fv, ParsedInput.unit = ''b''\<rparr>))"

definition toBytes :: "number \<Rightarrow> string \<Rightarrow> number" where
  "toBytes fv unit' =
     (case toByteUnit unit' of
        None \<Rightarrow> NaN
      | Some normalizedUnit \<Rightarrow>
          if \<not> truthy normalizedUnit then NaN
          else Math_floor (js_mul (ToNumber (js_get UNIT_VALUE_BY_LOWER normalizedUnit)) fv))"

section \<open>parseBytes, safeParseBytes and parseBytesOrThrow\<close>

text \<open>The input is a string or a Number: the signature admits nothing else.\<close>

datatype input = Str string | Num number

datatype parse_output = Output_number | Output_array' | Output_object'

record ParseBytesOptions =
  "output" :: "parse_output option"

record ParseBytesDetail =
  bytes :: number
  unit :: string
  "value" :: number

datatype ParseBytesResult =
  ParseNumber number | ParseArray number string | ParseObject ParseBytesDetail

definition noParseOptions :: ParseBytesOptions where
  "noParseOptions = \<lparr>ParseBytesOptions.output = None\<rparr>"

definition parseBytes :: "input \<Rightarrow> ParseBytesOptions \<Rightarrow> ParseBytesResult option" where
  "parseBytes val options =
     (case val of
        Num n \<Rightarrow>
          if \<not> Number_isFinite n then None
          else (case ParseBytesOptions.output options of
                  Some Output_array' \<Rightarrow> Some (ParseArray n ''B'')
                | Some Output_object' \<Rightarrow>
                    Some (ParseObject \<lparr>ParseBytesDetail.bytes = n, ParseBytesDetail.unit = ''B'',
                                        ParseBytesDetail.value = n\<rparr>)
                | _ \<Rightarrow> Some (ParseNumber n))
      | Str s \<Rightarrow>
          (case parseInput s of
             None \<Rightarrow> None
           | Some parsed \<Rightarrow>
               (let bytes = toBytes (floatValue parsed) (ParsedInput.unit parsed);
                    unitLabel = toUpperCase (ParsedInput.unit parsed)
                in case ParseBytesOptions.output options of
                     Some Output_array' \<Rightarrow> Some (ParseArray bytes unitLabel)
                   | Some Output_object' \<Rightarrow>
                       Some (ParseObject \<lparr>ParseBytesDetail.bytes = bytes, ParseBytesDetail.unit = unitLabel,
                                           ParseBytesDetail.value = floatValue parsed\<rparr>)
                   | _ \<Rightarrow> Some (ParseNumber bytes))))"

datatype SafeParseResult = SafeParseSuccess ParseBytesResult | SafeParseFailure error

definition invalidValueError :: "input \<Rightarrow> error" where
  "invalidValueError val =
     TypeError (''Invalid byte value: '' @
       (case val of Str s \<Rightarrow> [CHR 0x22] @ s @ [CHR 0x22] | Num n \<Rightarrow> Number_toString n))"

definition safeParseBytes :: "input \<Rightarrow> ParseBytesOptions \<Rightarrow> SafeParseResult" where
  "safeParseBytes val options =
     (if ParseBytesOptions.output options = Some Output_array'
      then (case parseBytes val \<lparr>ParseBytesOptions.output = Some Output_array'\<rparr> of
              None \<Rightarrow> SafeParseFailure (invalidValueError val)
            | Some r \<Rightarrow> SafeParseSuccess r)
      else if ParseBytesOptions.output options = Some Output_object'
      then (case parseBytes val \<lparr>ParseBytesOptions.output = Some Output_object'\<rparr> of
              None \<Rightarrow> SafeParseFailure (invalidValueError val)
            | Some r \<Rightarrow> SafeParseSuccess r)
      else (case parseBytes val noParseOptions of
              None \<Rightarrow> SafeParseFailure (invalidValueError val)
            | Some r \<Rightarrow> SafeParseSuccess r))"

text \<open>\<open>Inl\<close> is the error thrown.\<close>

definition parseBytesOrThrow :: "input \<Rightarrow> ParseBytesOptions \<Rightarrow> error + ParseBytesResult" where
  "parseBytesOrThrow val options =
     (let r = (if ParseBytesOptions.output options = Some Output_array'
               then safeParseBytes val \<lparr>ParseBytesOptions.output = Some Output_array'\<rparr>
               else if ParseBytesOptions.output options = Some Output_object'
               then safeParseBytes val \<lparr>ParseBytesOptions.output = Some Output_object'\<rparr>
               else safeParseBytes val noParseOptions)
      in case r of
           SafeParseFailure e \<Rightarrow> Inl e
         | SafeParseSuccess x \<Rightarrow> Inr x)"

section \<open>Compositions used by the properties\<close>

text \<open>The test suite's round trip: \<open>parseBytes(formatBytes(n) ?? '')\<close>, both with
  their default options.\<close>

definition roundtrip :: "rat \<Rightarrow> ParseBytesResult option" where
  "roundtrip n =
     (case formatBytes (Fin n) noFormatOptions of
        Inl e \<Rightarrow> None
      | Inr None \<Rightarrow> parseBytes (Str []) noParseOptions
      | Inr (Some (FormatString str)) \<Rightarrow> parseBytes (Str str) noParseOptions
      | Inr (Some other) \<Rightarrow> None)"

text \<open>The byte count of a result of \<open>parseBytes\<close>, whatever its shape.\<close>

fun byteCount :: "ParseBytesResult \<Rightarrow> number" where
  "byteCount (ParseNumber n) = n"
| "byteCount (ParseArray n label) = n"
| "byteCount (ParseObject detail) = ParseBytesDetail.bytes detail"

section \<open>Properties\<close>

subsection \<open>Rounding to binary64\<close>

lemma ipow_powi: "ipow b e = b powi e"
proof (induction b e rule: ipow.induct)
  case (1 b e)
  show ?case
  proof (cases "e < 0")
    case True
    with 1 have "ipow b (- e) = b powi (- e)" by simp
    with True show ?thesis
      by (subst ipow.simps) (simp add: power_int_minus_divide)
  next
    case nonneg: False
    show ?thesis
    proof (cases "e = 0")
      case True
      then show ?thesis by (subst ipow.simps) simp
    next
      case False
      with nonneg 1 have h: "ipow b (e div 2) = b powi (e div 2)" by (cases "even e") simp_all
      have split: "b powi (e div 2) * b powi (e div 2) = b powi (e div 2 + e div 2)"
      proof (cases "e div 2 = 0")
        case True
        then show ?thesis by simp
      next
        case False
        then show ?thesis by (subst power_int_add) auto
      qed
      show ?thesis
      proof (cases "even e")
        case True
        then have "e div 2 + e div 2 = e" by presburger
        with True False nonneg h split show ?thesis
          by (subst ipow.simps) (simp add: Let_def)
      next
        case odd: False
        then have e: "1 + (e div 2 + e div 2) = e" by presburger
        have "b * b powi (e div 2 + e div 2) = b powi (1 + (e div 2 + e div 2))"
          using nonneg False e by (subst power_int_add) auto
        with odd False nonneg h split e show ?thesis
          by (subst ipow.simps) (simp add: Let_def mult.assoc)
      qed
    qed
  qed
qed

lemma bitLength_bounds:
  assumes "0 < n"
  shows "1 \<le> bitLength n \<and> 2 ^ nat (bitLength n - 1) \<le> n \<and> n < 2 ^ nat (bitLength n)"
  using assms
proof (induction n rule: bitLength.induct)
  case (1 n)
  show ?case
  proof (cases "n = 1")
    case True
    have "bitLength 1 = 1"
      by (subst bitLength.simps, subst bitLength.simps) simp
    with True show ?thesis by simp
  next
    case False
    with 1(2) have pos: "0 < n div 2" by simp
    from 1(1)[OF _ pos] 1(2)
    have ih: "1 \<le> bitLength (n div 2)" "2 ^ nat (bitLength (n div 2) - 1) \<le> n div 2"
      "n div 2 < 2 ^ nat (bitLength (n div 2))"
      by simp_all
    have bl: "bitLength n = 1 + bitLength (n div 2)"
      using 1(2) by (subst bitLength.simps) simp
    have n1: "nat (bitLength n - 1) = Suc (nat (bitLength (n div 2) - 1))"
      using ih(1) bl by simp
    have n2: "nat (bitLength n) = Suc (nat (bitLength (n div 2)))"
      using ih(1) bl by simp
    have "2 * (n div 2) \<le> n" "n < 2 * (n div 2) + 2"
      by presburger+
    with ih(2,3) have "2 ^ nat (bitLength n - 1) \<le> n" "n < 2 ^ nat (bitLength n)"
      unfolding n1 n2 by simp_all
    with bl ih(1) show ?thesis by simp
  qed
qed

lemma bitLength_rat:
  assumes "0 < n"
  shows "2 powi (bitLength n - 1) \<le> (of_int n :: rat)" and "(of_int n :: rat) < 2 powi bitLength n"
proof -
  from bitLength_bounds[OF assms]
  have b: "1 \<le> bitLength n" "2 ^ nat (bitLength n - 1) \<le> n" "n < 2 ^ nat (bitLength n)"
    by simp_all
  have "(2::rat) powi (bitLength n - 1) = of_int (2 ^ nat (bitLength n - 1))"
    using b(1) by (simp add: power_int_def)
  also have "\<dots> \<le> of_int n"
    using b(2) by (simp only: of_int_le_iff)
  finally show "2 powi (bitLength n - 1) \<le> (of_int n :: rat)" .
  have "(of_int n :: rat) < of_int (2 ^ nat (bitLength n))"
    using b(3) by (simp only: of_int_less_iff)
  also have "\<dots> = 2 powi bitLength n"
    using b(1) by (simp add: power_int_def)
  finally show "(of_int n :: rat) < 2 powi bitLength n" .
qed

lemma ilog2_bounds:
  assumes "0 < a"
  shows "2 powi ilog2 a \<le> a" and "a < 2 powi (ilog2 a + 1)"
proof -
  obtain p q where pq: "quotient_of a = (p, q)" by (cases "quotient_of a")
  then have q: "0 < q" and a: "a = of_int p / of_int q"
    by (simp_all add: quotient_of_denom_pos quotient_of_div)
  with assms have p: "0 < p"
    by (simp add: zero_less_divide_iff)
  define e where "e = bitLength p - bitLength q"
  have il: "ilog2 a = (if 2 powi e \<le> a then e else e - 1)"
    by (simp add: ilog2_def pq e_def ipow_powi)
  note bp = bitLength_rat[OF p] and bq = bitLength_rat[OF q]
  have qpos: "(0::rat) < of_int q" using q by simp
  have "a < 2 powi bitLength p / 2 powi (bitLength q - 1)"
  proof -
    have "a < 2 powi bitLength p / of_int q"
      unfolding a using bp(2) qpos by (simp add: divide_strict_right_mono)
    also have "\<dots> \<le> 2 powi bitLength p / 2 powi (bitLength q - 1)"
      using bq(1) q by (intro divide_left_mono mult_pos_pos) simp_all
    finally show ?thesis .
  qed
  also have "\<dots> = 2 powi (bitLength p - (bitLength q - 1))"
    by (subst power_int_diff) simp_all
  also have "bitLength p - (bitLength q - 1) = e + 1"
    by (simp add: e_def)
  finally have up: "a < 2 powi (e + 1)" .
  have "(2::rat) powi (bitLength p - 1) / 2 powi bitLength q \<le> of_int p / 2 powi bitLength q"
    using bp(1) by (simp add: divide_right_mono)
  also have "\<dots> \<le> a"
    unfolding a using bq(2) p qpos by (intro divide_left_mono mult_pos_pos) (simp_all add: less_imp_le)
  finally have "(2::rat) powi (bitLength p - 1) / 2 powi bitLength q \<le> a" .
  moreover have "2 powi (bitLength p - 1) / 2 powi bitLength q = (2::rat) powi (bitLength p - 1 - bitLength q)"
    by (subst power_int_diff) simp_all
  moreover have "bitLength p - 1 - bitLength q = e - 1"
    by (simp add: e_def)
  ultimately have low: "2 powi (e - 1) \<le> a" by simp
  show "2 powi ilog2 a \<le> a"
    using il low by (cases "2 powi e \<le> a") simp_all
  show "a < 2 powi (ilog2 a + 1)"
    using il up by (cases "2 powi e \<le> a") simp_all
qed

lemma powi_le_lessD:
  fixes a :: rat
  assumes "2 powi m \<le> a" and "a < 2 powi n"
  shows "m < n"
proof (rule ccontr)
  assume "\<not> m < n"
  then have "n \<le> m" by simp
  then have "(2::rat) powi n \<le> 2 powi m"
    by (intro power_int_increasing) simp_all
  with assms show False by linarith
qed

lemma powi_le_leD:
  fixes a :: rat
  assumes "2 powi m \<le> a" and "a \<le> 2 powi n"
  shows "m \<le> n"
proof (rule ccontr)
  assume "\<not> m \<le> n"
  then have "n < m" by simp
  then have "(2::rat) powi n < 2 powi m"
    by (intro power_int_strict_increasing) simp_all
  with assms show False by linarith
qed

lemma roundHalfEven_of_int: "roundHalfEven (of_int n) = n"
  by (simp add: roundHalfEven_def)

lemma roundHalfEven_le:
  assumes "x \<le> of_int N"
  shows "roundHalfEven x \<le> N"
proof -
  have f: "\<lfloor>x\<rfloor> \<le> N" using assms by (simp add: floor_le_iff)
  show ?thesis
  proof (cases "\<lfloor>x\<rfloor> = N")
    case True
    then have "of_int N \<le> x" by (metis of_int_floor_le)
    with assms have "x = of_int N" by simp
    then show ?thesis by (simp add: roundHalfEven_of_int)
  next
    case False
    with f have "\<lfloor>x\<rfloor> + 1 \<le> N" by simp
    then show ?thesis
      by (auto simp: roundHalfEven_def Let_def)
  qed
qed

lemma roundHalfEven_ge:
  assumes "of_int N \<le> x"
  shows "N \<le> roundHalfEven x"
proof -
  have "N \<le> \<lfloor>x\<rfloor>" using assms by (simp add: le_floor_iff)
  then show ?thesis
    by (auto simp: roundHalfEven_def Let_def)
qed

lemma binary64_pos:
  assumes "0 < a"
  shows "binary64 a =
     (if (2::rat) powi 1024 \<le> of_int (roundHalfEven (a / 2 powi (max (ilog2 a) (- 1022) - 52))) * 2 powi (max (ilog2 a) (- 1022) - 52)
      then PosInf
      else Fin (of_int (roundHalfEven (a / 2 powi (max (ilog2 a) (- 1022) - 52))) * 2 powi (max (ilog2 a) (- 1022) - 52)))"
  using assms by (simp add: binary64_def Let_def ipow_powi)

lemma binary64_minus: "binary64 (- q) = js_neg (binary64 q)"
  by (cases "q = 0"; cases "0 < q") (simp_all add: binary64_def Let_def)

lemma powi_53: "(2::rat) powi 53 = of_int (2 ^ 53)"
  by simp

lemma powi_52: "(2::rat) powi 52 = of_int (2 ^ 52)"
  by simp

lemma significand_bounds:
  assumes "0 < a"
  defines "e \<equiv> max (ilog2 a) (- 1022)"
  defines "N \<equiv> roundHalfEven (a / 2 powi (e - 52))"
  shows "0 \<le> N" and "N \<le> 2 ^ 53" and "- 1022 \<le> ilog2 a \<Longrightarrow> 2 ^ 52 \<le> N"
proof -
  have upos: "(0::rat) < 2 powi (e - 52)" by simp
  have "of_int 0 \<le> a / 2 powi (e - 52)"
    using assms(1) by simp
  then show "0 \<le> N"
    unfolding N_def by (rule roundHalfEven_ge)
  have "a < 2 powi (ilog2 a + 1)"
    using ilog2_bounds(2)[OF assms(1)] .
  also have "\<dots> \<le> 2 powi (e + 1)"
    unfolding e_def by (intro power_int_increasing) simp_all
  finally have "a / 2 powi (e - 52) < 2 powi (e + 1) / 2 powi (e - 52)"
    using upos by (simp add: divide_strict_right_mono)
  also have "2 powi (e + 1) / 2 powi (e - 52) = (2::rat) powi (e + 1 - (e - 52))"
    by (subst power_int_diff) simp_all
  also have "e + 1 - (e - 52) = 53" by simp
  finally have "a / 2 powi (e - 52) \<le> of_int (2 ^ 53)"
    by (simp only: powi_53 less_imp_le)
  then show "N \<le> 2 ^ 53"
    unfolding N_def by (rule roundHalfEven_le)
  show "2 ^ 52 \<le> N" if "- 1022 \<le> ilog2 a"
  proof -
    from that have e: "e = ilog2 a" by (simp add: e_def)
    have "2 powi e / 2 powi (e - 52) \<le> a / 2 powi (e - 52)"
      using ilog2_bounds(1)[OF assms(1)] e by (simp add: divide_right_mono)
    moreover have "2 powi e / 2 powi (e - 52) = (2::rat) powi (e - (e - 52))"
      by (subst power_int_diff) simp_all
    moreover have "e - (e - 52) = 52" by simp
    ultimately have "of_int (2 ^ 52) \<le> a / 2 powi (e - 52)"
      by (simp only: powi_52)
    then show ?thesis
      unfolding N_def by (rule roundHalfEven_ge)
  qed
qed

lemma dyadic_exact:
  assumes "0 < a" and "a = of_int n * 2 powi t" and "- 1074 \<le> t" and "n \<le> 2 ^ 53"
  shows "\<exists>n'. a / 2 powi (max (ilog2 a) (- 1022) - 52) = of_int n'"
proof -
  define L where "L = ilog2 a"
  define e where "e = max L (- 1022)"
  have tpos: "(0::rat) < 2 powi t" by simp
  have "of_int n * (2::rat) powi t \<le> of_int (2 ^ 53) * 2 powi t"
    using assms(4) tpos by (intro mult_right_mono) (simp_all only: of_int_le_iff less_imp_le)
  also have "of_int (2 ^ 53) * 2 powi t = (2::rat) powi (53 + t)"
    by (subst power_int_add) simp_all
  finally have upper: "a \<le> 2 powi (53 + t)"
    using assms(2) by simp
  have lower: "2 powi L \<le> a"
    unfolding L_def by (rule ilog2_bounds(1)[OF assms(1)])
  from lower upper have L: "L \<le> 53 + t" by (rule powi_le_leD)
  show ?thesis
  proof (cases "e \<le> t + 52")
    case True
    define d where "d = t + 52 - e"
    from True have d: "0 \<le> d" by (simp add: d_def)
    have "a / 2 powi (e - 52) = of_int n * (2 powi t / 2 powi (e - 52))"
      using assms(2) by simp
    also have "2 powi t / 2 powi (e - 52) = (2::rat) powi (t - (e - 52))"
      by (subst power_int_diff) simp_all
    also have "t - (e - 52) = d" by (simp add: d_def)
    also have "(2::rat) powi d = of_int (2 ^ nat d)"
      using d by (simp add: power_int_def)
    finally have "a / 2 powi (e - 52) = of_int (n * 2 ^ nat d)"
      by simp
    then show ?thesis
      unfolding e_def L_def by blast
  next
    case False
    with assms(3) L have e: "e = 53 + t" "L = 53 + t"
      by (simp_all add: e_def)
    from lower upper e(2) have "a = 2 powi (53 + t)" by simp
    then have "a / 2 powi (e - 52) = 2 powi (53 + t) / 2 powi (53 + t - 52)"
      using e(1) by simp
    also have "\<dots> = (2::rat) powi (53 + t - (53 + t - 52))"
      by (subst power_int_diff) simp_all
    also have "53 + t - (53 + t - 52) = 52" by simp
    finally have "a / 2 powi (e - 52) = of_int (2 ^ 52)"
      by (simp only: powi_52)
    then show ?thesis
      unfolding e_def L_def by blast
  qed
qed

lemma binary64_exact:
  assumes "dyadic53 a"
  shows "binary64 a = (if a < 2 powi 1024 then Fin a else PosInf)"
proof (cases "a = 0")
  case True
  then show ?thesis by (simp add: binary64_def)
next
  case False
  from assms obtain n t where nt: "a = of_int n * 2 powi t" "- 1074 \<le> t" "0 \<le> n" "n \<le> 2 ^ 53"
    unfolding dyadic53_def by blast
  have "0 \<le> a" using nt(1,3) by simp
  with False have pos: "0 < a" by simp
  from dyadic_exact[OF pos nt(1,2,4)] obtain n'
    where n': "a / 2 powi (max (ilog2 a) (- 1022) - 52) = of_int n'"
    by blast
  have "of_int (roundHalfEven (a / 2 powi (max (ilog2 a) (- 1022) - 52))) * 2 powi (max (ilog2 a) (- 1022) - 52) = a"
    unfolding n' roundHalfEven_of_int unfolding n'[symmetric] by simp
  then show ?thesis
    unfolding binary64_pos[OF pos] by (auto simp: not_le)
qed

lemma dyadic53_0: "dyadic53 0"
  unfolding dyadic53_def by (intro exI[of _ 0]) simp

lemma binary64_dyadic_pos:
  assumes "0 < a" and "binary64 a = Fin r"
  shows "dyadic53 r"
proof -
  define e where "e = max (ilog2 a) (- 1022)"
  define N where "N = roundHalfEven (a / 2 powi (e - 52))"
  from assms(2) have r: "r = of_int N * 2 powi (e - 52)"
    unfolding binary64_pos[OF assms(1)] N_def e_def by (simp split: if_splits)
  have "0 \<le> N" "N \<le> 2 ^ 53"
    using significand_bounds(1,2)[OF assms(1)] unfolding N_def e_def by simp_all
  moreover have "- 1074 \<le> e - 52" by (simp add: e_def)
  ultimately show ?thesis
    unfolding dyadic53_def using r by blast
qed

lemma binary64_dyadic:
  assumes "binary64 q = Fin r"
  shows "dyadic53 \<bar>r\<bar>"
proof -
  consider "q = 0" | "0 < q" | "q < 0" by linarith
  then show ?thesis
  proof cases
    case 1
    with assms show ?thesis by (simp add: binary64_def dyadic53_0)
  next
    case 2
    from binary64_dyadic_pos[OF 2 assms] have d: "dyadic53 r" .
    then have "0 \<le> r" unfolding dyadic53_def by auto
    with d show ?thesis by simp
  next
    case 3
    then have pos: "0 < - q" by simp
    from assms have "binary64 (- q) = Fin (- r)"
      by (simp add: binary64_minus)
    from binary64_dyadic_pos[OF pos this] have d: "dyadic53 (- r)" .
    then have "0 \<le> - r" unfolding dyadic53_def by (auto simp del: neg_0_le_iff_le)
    with d show ?thesis by simp
  qed
qed

lemma dyadic53_scale:
  assumes "dyadic53 a"
  shows "dyadic53 (a * 2 ^ j)"
proof -
  from assms obtain n t where nt: "a = of_int n * 2 powi t" "- 1074 \<le> t" "0 \<le> n" "n \<le> 2 ^ 53"
    unfolding dyadic53_def by blast
  have "(2::rat) powi t * 2 ^ j = 2 powi (t + int j)"
    by (subst power_int_add) simp_all
  then have "a * 2 ^ j = of_int n * 2 powi (t + int j)"
    using nt(1) by (simp add: mult.assoc)
  moreover have "- 1074 \<le> t + int j" using nt(2) by simp
  ultimately show ?thesis
    unfolding dyadic53_def using nt(3,4) by blast
qed

text \<open>A product of a binary64 value and a power of two.\<close>

lemma js_mul_power_of_two:
  assumes "dyadic53 \<bar>m\<bar>"
  shows "js_mul (Fin (2 ^ j)) (Fin m) =
     (if \<bar>m * 2 ^ j\<bar> < 2 ^ 1024 then Fin (m * 2 ^ j) else if 0 < m then PosInf else NegInf)"
proof -
  have d: "dyadic53 (\<bar>m\<bar> * 2 ^ j)"
    using assms by (rule dyadic53_scale)
  have abs: "\<bar>m * 2 ^ j\<bar> = \<bar>m\<bar> * 2 ^ j"
    by (simp add: abs_mult)
  have p: "(2::rat) powi 1024 = 2 ^ 1024" by simp
  show ?thesis
  proof (cases "0 \<le> m")
    case True
    then have "binary64 (2 ^ j * m) = (if m * 2 ^ j < 2 ^ 1024 then Fin (m * 2 ^ j) else PosInf)"
      using binary64_exact[OF d] by (simp add: mult.commute p del: power_int_numeral)
    moreover have "0 < m" if "\<not> m * 2 ^ j < 2 ^ 1024"
      using that True by (cases "m = 0") simp_all
    ultimately show ?thesis
      using True by (auto simp: abs)
  next
    case False
    then have neg: "m < 0" by simp
    then have "binary64 (2 ^ j * m) = js_neg (binary64 (\<bar>m\<bar> * 2 ^ j))"
      using binary64_minus[of "\<bar>m\<bar> * 2 ^ j"] by (simp add: mult.commute)
    also have "\<dots> = (if \<bar>m\<bar> * 2 ^ j < 2 ^ 1024 then Fin (- (\<bar>m\<bar> * 2 ^ j)) else NegInf)"
      using binary64_exact[OF d] by (simp add: p del: power_int_numeral)
    finally show ?thesis
      using neg by (auto simp: abs)
  qed
qed

lemma binary64_lower:
  assumes "2 powi k \<le> q" and "- 1022 \<le> k" and "binary64 q = Fin r"
  shows "2 powi k \<le> r"
proof -
  have pos: "0 < q"
    using assms(1) zero_less_power_int[of "2::rat" k] by linarith
  define L where "L = ilog2 q"
  have "k < L + 1"
    using assms(1) ilog2_bounds(2)[OF pos] unfolding L_def by (rule powi_le_lessD)
  then have kL: "k \<le> L" by simp
  with assms(2) have e: "max (ilog2 q) (- 1022) = L" by (simp add: L_def)
  define N where "N = roundHalfEven (q / 2 powi (L - 52))"
  have N: "2 ^ 52 \<le> N"
    using significand_bounds(3)[OF pos] kL assms(2) unfolding N_def e L_def[symmetric] by simp
  from assms(3) have r: "r = of_int N * 2 powi (L - 52)"
    unfolding binary64_pos[OF pos] e N_def by (simp split: if_splits)
  have "(2::rat) powi k \<le> 2 powi L"
    using kL by (intro power_int_increasing) simp_all
  also have "(2::rat) powi L = of_int (2 ^ 52) * 2 powi (L - 52)"
    by (simp only: powi_52[symmetric]) (subst power_int_add[symmetric], simp_all)
  also have "\<dots> \<le> of_int N * 2 powi (L - 52)"
    using N by (intro mult_right_mono) (simp_all only: of_int_le_iff zero_le_power_int zero_le_numeral)
  finally show ?thesis
    using r by simp
qed

lemma binary64_finite:
  assumes "0 < q" and "q < 2 powi 1023"
  shows "\<exists>r. binary64 q = Fin r"
proof -
  define e where "e = max (ilog2 q) (- 1022)"
  define N where "N = roundHalfEven (q / 2 powi (e - 52))"
  have "ilog2 q < 1023"
    using ilog2_bounds(1)[OF assms(1)] assms(2) by (rule powi_le_lessD)
  then have e: "e \<le> 1022" by (simp add: e_def)
  have N: "N \<le> 2 ^ 53"
    using significand_bounds(2)[OF assms(1)] unfolding N_def e_def by simp
  have "of_int N * (2::rat) powi (e - 52) \<le> of_int (2 ^ 53) * 2 powi (e - 52)"
    using N by (intro mult_right_mono) (simp_all only: of_int_le_iff zero_le_power_int zero_le_numeral)
  also have "of_int (2 ^ 53) * 2 powi (e - 52) = (2::rat) powi (53 + (e - 52))"
    by (simp only: powi_53[symmetric]) (subst power_int_add[symmetric], simp_all)
  also have "\<dots> \<le> 2 powi 1023"
    using e by (intro power_int_increasing) simp_all
  also have "\<dots> < (2::rat) powi 1024"
    by (intro power_int_strict_increasing) simp_all
  finally have "\<not> 2 powi 1024 \<le> of_int N * (2::rat) powi (e - 52)"
    by simp
  then show ?thesis
    unfolding binary64_pos[OF assms(1)] N_def e_def by simp
qed

lemma binary64_range_pos:
  assumes "0 < a" and "binary64 a = Fin r"
  shows "r < 2 ^ 1024"
proof -
  have p: "(2::rat) powi 1024 = 2 ^ 1024" by simp
  from assms(2) show ?thesis
    unfolding binary64_pos[OF assms(1)] p by (simp split: if_splits)
qed

lemma binary64_value:
  assumes "binary64 q = Fin r"
  shows "dyadic53 \<bar>r\<bar>" and "\<bar>r\<bar> < 2 ^ 1024"
proof -
  show "dyadic53 \<bar>r\<bar>"
    using assms by (rule binary64_dyadic)
  consider "q = 0" | "0 < q" | "q < 0" by linarith
  then show "\<bar>r\<bar> < 2 ^ 1024"
  proof cases
    case 1
    with assms show ?thesis by (simp add: binary64_def)
  next
    case 2
    from binary64_dyadic_pos[OF 2 assms] have "0 \<le> r" unfolding dyadic53_def by auto
    with binary64_range_pos[OF 2 assms] show ?thesis by simp
  next
    case 3
    then have pos: "0 < - q" by simp
    from assms have m: "binary64 (- q) = Fin (- r)"
      by (simp add: binary64_minus)
    from binary64_dyadic_pos[OF pos m] have "0 \<le> - r"
      unfolding dyadic53_def by (auto simp del: neg_0_le_iff_le)
    with binary64_range_pos[OF pos m] show ?thesis by simp
  qed
qed

lemma js_neg_Fin: "js_neg x = Fin m \<Longrightarrow> x = Fin (- m)"
  by (cases x) simp_all

lemma unsignedDecimalLiteral_value:
  assumes "unsignedDecimalLiteral s = Fin m"
  shows "dyadic53 \<bar>m\<bar> \<and> \<bar>m\<bar> < 2 ^ 1024"
proof -
  from assms obtain q where "binary64 q = Fin m"
    by (auto simp: unsignedDecimalLiteral_def Let_def split: if_splits)
  then show ?thesis
    using binary64_value by blast
qed

lemma parseFloat_value:
  assumes "parseFloat s = Fin m"
  shows "dyadic53 \<bar>m\<bar> \<and> \<bar>m\<bar> < 2 ^ 1024"
proof -
  from assms have "(\<exists>t. unsignedDecimalLiteral t = Fin m) \<or> (\<exists>t. unsignedDecimalLiteral t = Fin (- m))"
    by (auto simp: parseFloat_def Let_def split: list.splits if_splits dest: js_neg_Fin)
  then show ?thesis
    using unsignedDecimalLiteral_value[of _ m] unsignedDecimalLiteral_value[of _ "- m"] by auto
qed

subsection \<open>Facts about the tables, the characters and the parser\<close>

lemma UNIT_THRESHOLDS_eval:
  "UNIT_THRESHOLDS =
     [(''YB'', 1024 ^ 8), (''ZB'', 1024 ^ 7), (''EB'', 1024 ^ 6), (''PB'', 1024 ^ 5),
      (''TB'', 1024 ^ 4), (''GB'', 1024 ^ 3), (''MB'', 1024 ^ 2), (''KB'', 1024 ^ 1), (''B'', 1024 ^ 0)]"
  by (simp add: UNIT_THRESHOLDS_def UNITS_def)

lemma UNIT_VALUE_BY_LOWER_eval:
  "UNIT_VALUE_BY_LOWER =
     [(''b'', 1024 ^ 0), (''kb'', 1024 ^ 1), (''mb'', 1024 ^ 2), (''gb'', 1024 ^ 3), (''tb'', 1024 ^ 4),
      (''pb'', 1024 ^ 5), (''eb'', 1024 ^ 6), (''zb'', 1024 ^ 7), (''yb'', 1024 ^ 8)]"
  by code_simp

lemma table_entries:
  "list_all (\<lambda>(u, k). toByteUnit u = Some u \<and> truthy u \<and>
       js_get UNIT_VALUE_BY_LOWER u = JNum (Fin k)) UNIT_VALUE_BY_LOWER"
  by code_simp

text \<open>Checked on each of the 256 characters.\<close>

lemma lowerChar_Canonicalize: "\<forall>c. lowerChar (Canonicalize c) = lowerChar c"
  by code_simp

lemma toLowerCase_Canonicalize:
  assumes "map Canonicalize s = map Canonicalize t"
  shows "toLowerCase s = toLowerCase t"
proof -
  have "map lowerChar (map Canonicalize s) = map lowerChar (map Canonicalize t)"
    using assms by simp
  then show ?thesis
    by (simp add: toLowerCase_def lowerChar_Canonicalize comp_def)
qed

lemma unit_tokens_lower:
  "list_all (\<lambda>t. toLowerCase t \<in> set (map fst UNIT_VALUE_BY_LOWER)) (PARSEABLE_UNITS @ [''b''])"
  by code_simp

lemma PARSE_RE_exec_unit:
  assumes "PARSE_RE_exec t = Some (group1, group2)"
  shows "toLowerCase group2 \<in> set (map fst UNIT_VALUE_BY_LOWER)"
proof -
  from assms have "map Canonicalize group2 \<in> set (map (map Canonicalize) (PARSEABLE_UNITS @ [''b'']))"
    by (auto simp: PARSE_RE_exec_def Let_def split: if_splits)
  then have "\<exists>u\<in>set (PARSEABLE_UNITS @ [''b'']). map Canonicalize group2 = map Canonicalize u"
    unfolding set_map image_iff .
  then obtain u where u: "u \<in> set (PARSEABLE_UNITS @ [''b''])" "map Canonicalize group2 = map Canonicalize u"
    ..
  from u(2) have "toLowerCase group2 = toLowerCase u"
    by (rule toLowerCase_Canonicalize)
  moreover from u(1) unit_tokens_lower have "toLowerCase u \<in> set (map fst UNIT_VALUE_BY_LOWER)"
    unfolding list_all_iff by blast
  ultimately show ?thesis by simp
qed
lemma power_1024: "(1024::rat) ^ i = 2 ^ (10 * i)"
  by (simp add: power_mult)

lemma toBytes_own:
  assumes "(u, 1024 ^ i) \<in> set UNIT_VALUE_BY_LOWER" and "dyadic53 \<bar>m\<bar>"
  shows "toBytes (Fin m) u =
     (if \<bar>m * 1024 ^ i\<bar> < 2 ^ 1024 then Fin (of_int \<lfloor>m * 1024 ^ i\<rfloor>)
      else if 0 < m then PosInf else NegInf)"
proof -
  from assms(1) table_entries
  have "toByteUnit u = Some u" "truthy u" "js_get UNIT_VALUE_BY_LOWER u = JNum (Fin (1024 ^ i))"
    unfolding list_all_iff by auto
  then have "toBytes (Fin m) u = Math_floor (js_mul (Fin (2 ^ (10 * i))) (Fin m))"
    by (simp only: toBytes_def power_1024 option.case if_False not_True_eq_False not_not ToNumber.simps Let_def)
  also have "\<dots> = Math_floor
     (if \<bar>m * 2 ^ (10 * i)\<bar> < 2 ^ 1024 then Fin (m * 2 ^ (10 * i)) else if 0 < m then PosInf else NegInf)"
    by (simp only: js_mul_power_of_two[OF assms(2)])
  finally show ?thesis
    by (simp only: power_1024 Math_floor.simps if_distrib[of Math_floor])
qed

lemma key_multiplier:
  assumes "u \<in> set (map fst UNIT_VALUE_BY_LOWER)"
  shows "\<exists>k i. map_of UNIT_VALUE_BY_LOWER u = Some k \<and> (u, k) \<in> set UNIT_VALUE_BY_LOWER \<and> i \<le> 8 \<and> k = 1024 ^ i"
proof -
  from assms obtain k where k: "(u, k) \<in> set UNIT_VALUE_BY_LOWER"
    by auto
  have d: "distinct (map fst UNIT_VALUE_BY_LOWER)"
    by (simp add: UNIT_VALUE_BY_LOWER_eval)
  from k d have "map_of UNIT_VALUE_BY_LOWER u = Some k"
    by simp
  moreover from k have "\<exists>i\<le>8. k = 1024 ^ i"
    unfolding UNIT_VALUE_BY_LOWER_eval
    by (auto intro: exI[of _ 0] exI[of _ 1] exI[of _ 2] exI[of _ 3] exI[of _ 4] exI[of _ 5] exI[of _ 6] exI[of _ 7] exI[of _ 8])
  ultimately show ?thesis using k by blast
qed
lemma parseInput_accepts:
  assumes "parseInput s = Some parsed"
  shows "\<exists>m. floatValue parsed = Fin m \<and> dyadic53 \<bar>m\<bar> \<and> \<bar>m\<bar> < 2 ^ 1024 \<and>
           ParsedInput.unit parsed \<in> set (map fst UNIT_VALUE_BY_LOWER)"
proof -
  have fin: "\<exists>m. x = Fin m" if "Number_isFinite x" for x
    using that by (cases x) simp_all
  have "(\<exists>t. floatValue parsed = parseFloat t) \<and> Number_isFinite (floatValue parsed) \<and>
        ParsedInput.unit parsed \<in> set (map fst UNIT_VALUE_BY_LOWER)"
  proof (cases "PARSE_RE_exec (trim s)")
    case None
    have b: "''b'' \<in> set (map fst UNIT_VALUE_BY_LOWER)"
      by (simp add: UNIT_VALUE_BY_LOWER_eval)
    from assms None have "parsed = \<lparr>floatValue = parseFloat (trim s), ParsedInput.unit = ''b''\<rparr>"
      "Number_isFinite (parseFloat (trim s))"
      by (auto simp: parseInput_def Let_def split: if_splits)
    with b show ?thesis by auto
  next
    case (Some g)
    obtain group1 group2 where g: "g = (group1, group2)" by (cases g)
    from Some g have key: "toLowerCase group2 \<in> set (map fst UNIT_VALUE_BY_LOWER)"
      by (auto dest: PARSE_RE_exec_unit)
    then have unit: "toByteUnit group2 = Some (toLowerCase group2)"
      by (simp add: toByteUnit_def js_in_def)
    from assms Some g unit
    have "parsed = \<lparr>floatValue = parseFloat group1, ParsedInput.unit = toLowerCase group2\<rparr>"
      "Number_isFinite (parseFloat group1)"
      by (auto simp: parseInput_def Let_def split: if_splits)
    with key show ?thesis by auto
  qed
  then obtain t where t: "floatValue parsed = parseFloat t" "Number_isFinite (parseFloat t)"
    and u: "ParsedInput.unit parsed \<in> set (map fst UNIT_VALUE_BY_LOWER)"
    by auto
  from fin[OF t(2)] obtain m where m: "parseFloat t = Fin m" ..
  from parseFloat_value[OF m] t(1) m u show ?thesis by auto
qed

lemma parseBytes_string:
  assumes "parseInput s = Some parsed"
  shows "\<exists>m k i. floatValue parsed = Fin m \<and>
           map_of UNIT_VALUE_BY_LOWER (ParsedInput.unit parsed) = Some k \<and> i \<le> 8 \<and> k = 1024 ^ i \<and>
           map_option byteCount (parseBytes (Str s) options) =
             Some (if \<bar>m * k\<bar> < 2 ^ 1024 then Fin (of_int \<lfloor>m * k\<rfloor>)
                   else if 0 < m then PosInf else NegInf)"
proof -
  from parseInput_accepts[OF assms] obtain m where m: "floatValue parsed = Fin m" "dyadic53 \<bar>m\<bar>"
    and u: "ParsedInput.unit parsed \<in> set (map fst UNIT_VALUE_BY_LOWER)"
    by blast
  from key_multiplier[OF u] obtain k i where k: "map_of UNIT_VALUE_BY_LOWER (ParsedInput.unit parsed) = Some k"
    "(ParsedInput.unit parsed, k) \<in> set UNIT_VALUE_BY_LOWER" "i \<le> 8" "k = 1024 ^ i"
    by blast
  have "toBytes (floatValue parsed) (ParsedInput.unit parsed) =
      (if \<bar>m * k\<bar> < 2 ^ 1024 then Fin (of_int \<lfloor>m * k\<rfloor>) else if 0 < m then PosInf else NegInf)"
    using toBytes_own[OF k(2)[unfolded k(4)] m(2)] unfolding m(1) k(4) .
  then have "map_option byteCount (parseBytes (Str s) options) =
      Some (if \<bar>m * k\<bar> < 2 ^ 1024 then Fin (of_int \<lfloor>m * k\<rfloor>) else if 0 < m then PosInf else NegInf)"
    using assms
    by (simp only: parseBytes_def Let_def input.case option.case split: option.splits parse_output.splits)
       (auto simp del: power_numeral)
  with m(1) k show ?thesis by blast
qed


lemma ParseBytesOptions_eta:
  assumes "ParseBytesOptions.output options = out"
  shows "\<lparr>ParseBytesOptions.output = out\<rparr> = options"
  using assms by (cases options) simp

lemma parseBytes_default:
  assumes "ParseBytesOptions.output options \<noteq> Some Output_array'"
    and "ParseBytesOptions.output options \<noteq> Some Output_object'"
  shows "parseBytes val options = parseBytes val noParseOptions"
  using assms
  by (cases val) (auto simp: parseBytes_def noParseOptions_def Let_def split: option.splits parse_output.splits)

lemma safeParseBytes_eq:
  "safeParseBytes val options =
     (case parseBytes val options of
        None \<Rightarrow> SafeParseFailure (invalidValueError val)
      | Some r \<Rightarrow> SafeParseSuccess r)"
proof -
  consider (a) "ParseBytesOptions.output options = Some Output_array'"
    | (b) "ParseBytesOptions.output options = Some Output_object'"
    | (c) "ParseBytesOptions.output options \<noteq> Some Output_array'" "ParseBytesOptions.output options \<noteq> Some Output_object'"
    by blast
  then show ?thesis
  proof cases
    case a
    then show ?thesis
      by (simp add: safeParseBytes_def ParseBytesOptions_eta)
  next
    case b
    then show ?thesis
      by (simp add: safeParseBytes_def ParseBytesOptions_eta)
  next
    case c
    then show ?thesis
      using parseBytes_default[OF c] by (simp add: safeParseBytes_def)
  qed
qed

lemma parseBytesOrThrow_eq:
  "parseBytesOrThrow val options =
     (case safeParseBytes val options of
        SafeParseFailure e \<Rightarrow> Inl e
      | SafeParseSuccess r \<Rightarrow> Inr r)"
proof -
  have "safeParseBytes val \<lparr>ParseBytesOptions.output = Some out\<rparr> = safeParseBytes val options"
    if "ParseBytesOptions.output options = Some out" for out
    using that by (simp add: ParseBytesOptions_eta)
  moreover have "safeParseBytes val noParseOptions = safeParseBytes val options"
    if "ParseBytesOptions.output options \<noteq> Some Output_array'" "ParseBytesOptions.output options \<noteq> Some Output_object'"
    using parseBytes_default[OF that, of val] by (simp add: safeParseBytes_eq)
  ultimately show ?thesis
    by (auto simp: parseBytesOrThrow_def Let_def)
qed

lemma resolveUnit_automatic_scan:
  assumes "preferred = None \<or> (\<exists>p. preferred = Some p \<and> toUnitLabel p = None)"
  shows "resolveUnit magnitude preferred = scanThresholds magnitude UNIT_THRESHOLDS"
  using assms by (auto simp: resolveUnit_def)

lemma power_1024_above:
  fixes m :: rat
  assumes "m < 1024 ^ Suc i" and "1024 ^ j \<le> m"
  shows "j \<le> i"
proof (rule ccontr)
  assume "\<not> j \<le> i"
  then have "Suc i \<le> j" by simp
  then have "(1024::rat) ^ Suc i \<le> 1024 ^ j"
    by (intro power_increasing) simp_all
  with assms show False by linarith
qed

lemma scanThresholds_largest:
  assumes "1 \<le> m"
  shows "\<exists>i\<le>8. scanThresholds (Fin m) UNIT_THRESHOLDS = fst (UNITS ! i) \<and> 1024 ^ i \<le> m \<and>
           (i < 8 \<longrightarrow> m < 1024 ^ Suc i)"
proof -
  consider (8) "1024 ^ 8 \<le> m"
    | (7) "1024 ^ 7 \<le> m" "m < 1024 ^ 8"
    | (6) "1024 ^ 6 \<le> m" "m < 1024 ^ 7"
    | (5) "1024 ^ 5 \<le> m" "m < 1024 ^ 6"
    | (4) "1024 ^ 4 \<le> m" "m < 1024 ^ 5"
    | (3) "1024 ^ 3 \<le> m" "m < 1024 ^ 4"
    | (2) "1024 ^ 2 \<le> m" "m < 1024 ^ 3"
    | (1) "1024 ^ 1 \<le> m" "m < 1024 ^ 2"
    | (0) "1024 ^ 0 \<le> m" "m < 1024 ^ 1"
    using assms by fastforce
  then show ?thesis
  proof cases
    case 8 then show ?thesis
      by (intro exI[of _ 8]) (simp add: UNIT_THRESHOLDS_eval UNITS_def)
  next
    case 7 then show ?thesis
      by (intro exI[of _ 7]) (simp add: UNIT_THRESHOLDS_eval UNITS_def)
  next
    case 6 then show ?thesis
      by (intro exI[of _ 6]) (simp add: UNIT_THRESHOLDS_eval UNITS_def)
  next
    case 5 then show ?thesis
      by (intro exI[of _ 5]) (simp add: UNIT_THRESHOLDS_eval UNITS_def)
  next
    case 4 then show ?thesis
      by (intro exI[of _ 4]) (simp add: UNIT_THRESHOLDS_eval UNITS_def)
  next
    case 3 then show ?thesis
      by (intro exI[of _ 3]) (simp add: UNIT_THRESHOLDS_eval UNITS_def)
  next
    case 2 then show ?thesis
      by (intro exI[of _ 2]) (simp add: UNIT_THRESHOLDS_eval UNITS_def)
  next
    case 1 then show ?thesis
      by (intro exI[of _ 1]) (simp add: UNIT_THRESHOLDS_eval UNITS_def)
  next
    case 0 then show ?thesis
      by (intro exI[of _ 0]) (simp add: UNIT_THRESHOLDS_eval UNITS_def)
  qed
qed

lemma scanThresholds_below_one:
  assumes "m < 1"
  shows "scanThresholds (Fin m) UNIT_THRESHOLDS = ''B''"
  using assms by (simp add: UNIT_THRESHOLDS_eval)

lemma toUnitLabel_INVALID: "toUnitLabel ''INVALID'' = None"
  by code_simp

lemma digit_not_special:
  assumes "isDigit c"
  shows "\<not> isWhiteSpace c" and "c \<noteq> CHR ''+''" and "c \<noteq> CHR ''-''" and "c \<noteq> CHR ''I''"
  using assms by (auto simp: isDigit_def decimalDigitChars_def isWhiteSpace_def)

lemma map_of_b: "map_of UNIT_VALUE_BY_LOWER ''b'' = Some 1"
  by (simp add: UNIT_VALUE_BY_LOWER_eval)


subsection \<open>A product that overflows\<close>

lemma digitValue_zero: "digitValue (CHR ''0'') = 0"
  by code_simp

lemma digitValue_one: "digitValue (CHR ''1'') = 1"
  by code_simp

lemma foldl_zeros:
  "foldl (\<lambda>a c. 10 * a + digitValue c) a (replicate n (CHR ''0'')) = a * 10 ^ n"
  by (induction n arbitrary: a) (simp_all add: digitValue_zero)

lemma digitsValue_one_zeros: "digitsValue (CHR ''1'' # replicate n (CHR ''0'')) = 10 ^ n"
  by (simp add: digitsValue_def foldl_zeros digitValue_one)

lemma isDigit_zero_one: "isDigit (CHR ''0'')" "isDigit (CHR ''1'')"
  by (simp_all add: isDigit_def decimalDigitChars_def)

lemma not_digit_Y: "\<not> isDigit (CHR ''Y'')" "\<not> isWhiteSpace (CHR ''Y'')" "\<not> isWhiteSpace (CHR ''B'')"
  by (simp_all add: isDigit_def decimalDigitChars_def isWhiteSpace_def)

lemma digitsValue_Nil: "digitsValue [] = 0"
  by (simp add: digitsValue_def)

lemma takeWhile_zeros:
  "takeWhile isDigit (replicate n (CHR ''0'') @ ''YB'') = replicate n (CHR ''0'')"
  by (induction n) (simp_all add: isDigit_zero_one not_digit_Y)

lemma dropWhile_zeros:
  "dropWhile isDigit (replicate n (CHR ''0'') @ ''YB'') = ''YB''"
  by (induction n) (simp_all add: isDigit_zero_one not_digit_Y)

lemma ipow_0: "ipow b 0 = 1"
  by (subst ipow.simps) simp

text \<open>\<open>parseFloat\<close> of a string of digits.\<close>

lemma parseFloat_digits:
  assumes "isDigit c" and "\<forall>d\<in>set ds. isDigit d"
  shows "parseFloat (c # ds) = binary64 (of_int (digitsValue (c # ds)))"
proof -
  have all: "\<forall>d\<in>set (c # ds). isDigit d"
    using assms by simp
  have tw: "takeWhile isDigit (c # ds) = c # ds" "dropWhile isDigit (c # ds) = []"
    using all by (simp_all only: takeWhile_eq_all_conv dropWhile_eq_Nil_conv)
  have "unsignedDecimalLiteral (c # ds) = binary64 (of_int (digitsValue (c # ds)))"
    unfolding unsignedDecimalLiteral_def Let_def tw
    using digit_not_special(4)[OF assms(1)] by (simp add: exponentPart_def pow10_def ipow_0 digitsValue_Nil)
  then show ?thesis
    using digit_not_special[OF assms(1)] by (simp add: parseFloat_def)
qed

lemma trim_no_space:
  assumes "\<not> isWhiteSpace c" and "\<not> isWhiteSpace (last (c # cs))"
  shows "trim (c # cs) = c # cs"
proof -
  have "rev (c # cs) = last (c # cs) # rev (butlast (c # cs))"
    by (metis append_butlast_last_id list.distinct(1) rev_append rev_singleton_conv append_Cons append_Nil)
  then have "dropWhile isWhiteSpace (rev (c # cs)) = rev (c # cs)"
    using assms(2) by simp
  then show ?thesis
    using assms(1) by (simp add: trim_def)
qed

lemma overflow_input_parts:
  "PARSE_RE_exec (CHR ''1'' # replicate n (CHR ''0'') @ ''YB'') = Some (CHR ''1'' # replicate n (CHR ''0''), ''YB'')"
proof -
  have tok: "map Canonicalize ''YB'' \<in> set (map (map Canonicalize) (PARSEABLE_UNITS @ [''b'']))"
    by code_simp
  show ?thesis
    unfolding PARSE_RE_exec_def Let_def
    using tok by (simp add: takeWhile_zeros dropWhile_zeros isDigit_zero_one not_digit_Y)
qed

lemma toByteUnit_YB: "toByteUnit ''YB'' = Some ''yb''"
  by code_simp

lemma yb_entry: "(''yb'', 1024 ^ 8) \<in> set UNIT_VALUE_BY_LOWER"
  by (simp add: UNIT_VALUE_BY_LOWER_eval)

lemma toUpperCase_yb: "toUpperCase ''yb'' = ''YB''"
  by code_simp

lemma ten_300_bounds: "(2::rat) powi 996 \<le> 10 ^ 300" "(10::rat) ^ 300 < 2 powi 1023" "(0::rat) < 10 ^ 300"
  by simp_all

lemma parseBytes_overflow:
  "parseBytes (Str (CHR ''1'' # replicate 300 (CHR ''0'') @ ''YB'')) noParseOptions = Some (ParseNumber PosInf)"
proof -
  define s where "s = CHR ''1'' # replicate 300 (CHR ''0'') @ ''YB''"
  define ds where "ds = CHR ''1'' # replicate 300 (CHR ''0'')"
  have "trim s = s"
    unfolding s_def by (rule trim_no_space) (simp_all add: not_digit_Y isWhiteSpace_def)
  moreover have "PARSE_RE_exec s = Some (ds, ''YB'')"
    unfolding s_def ds_def by (rule overflow_input_parts)
  moreover have pf: "parseFloat ds = binary64 (10 ^ 300)"
    unfolding ds_def
    by (subst parseFloat_digits) (simp_all add: isDigit_zero_one digitsValue_one_zeros)
  moreover obtain m where m: "binary64 (10 ^ 300) = Fin m"
    using binary64_finite[OF ten_300_bounds(3,2)] by blast
  ultimately have pi: "parseInput s = Some \<lparr>floatValue = Fin m, ParsedInput.unit = ''yb''\<rparr>"
    by (simp add: parseInput_def toByteUnit_YB truthy_def)
  have low: "2 powi 996 \<le> m"
    using ten_300_bounds(1) _ m by (rule binary64_lower) simp
  then have pos: "0 < m"
    using zero_less_power_int[of "2::rat" 996] by linarith
  have d: "dyadic53 \<bar>m\<bar>"
    using m by (rule binary64_value)
  have "(2::rat) ^ 1024 = 2 powi 996 * 2 ^ 28" by simp
  also have "\<dots> \<le> m * 2 ^ 28"
    using low by (intro mult_right_mono) simp_all
  also have "\<dots> \<le> m * 1024 ^ 8"
    using pos by (intro mult_left_mono) simp_all
  finally have "\<not> \<bar>m * 1024 ^ 8\<bar> < 2 ^ 1024"
    by (simp del: power_numeral)
  then have "toBytes (Fin m) ''yb'' = PosInf"
    using pos by (simp only: toBytes_own[OF yb_entry d] if_False if_True)
  then show ?thesis
    unfolding s_def[symmetric]
    by (simp add: parseBytes_def pi noParseOptions_def)
qed

subsection \<open>The round trip\<close>

text \<open>
  C1: for each of 1024, 1048576, 1073741824, \<open>1024 ^ 4\<close> and \<open>1024 ^ 5\<close>, parsing
  the default rendering of the value with the default options gives the value back.
\<close>

theorem roundtrip_powers_of_1024:
  "roundtrip 1024 = Some (ParseNumber (Fin 1024)) \<and>
   roundtrip 1048576 = Some (ParseNumber (Fin 1048576)) \<and>
   roundtrip 1073741824 = Some (ParseNumber (Fin 1073741824)) \<and>
   roundtrip (1024 ^ 4) = Some (ParseNumber (Fin (1024 ^ 4))) \<and>
   roundtrip (1024 ^ 5) = Some (ParseNumber (Fin (1024 ^ 5)))"
proof -
  have "roundtrip 1024 = Some (ParseNumber (Fin 1024))"
    by code_simp
  moreover have "roundtrip 1048576 = Some (ParseNumber (Fin 1048576))"
    by code_simp
  moreover have "roundtrip 1073741824 = Some (ParseNumber (Fin 1073741824))"
    by code_simp
  moreover have "roundtrip (1024 ^ 4) = Some (ParseNumber (Fin (1024 ^ 4)))"
    by code_simp
  moreover have "roundtrip (1024 ^ 5) = Some (ParseNumber (Fin (1024 ^ 5)))"
    by code_simp
  ultimately show ?thesis
    by blast
qed

subsection \<open>The fallback of the parser\<close>

text \<open>
  C2, as the specification states it, fails: \<open>12abc\<close> is not a strict match and is
  not a number as a whole, and \<open>parseBytes\<close> returns 12, not \<open>null\<close>.
\<close>

theorem parseBytes_numeric_prefix:
  "PARSE_RE_exec (trim ''12abc'') = None \<and>
   parseFloat (trim ''12abc'') = Fin 12 \<and>
   parseBytes (Str ''12abc'') noParseOptions = Some (ParseNumber (Fin 12))"
proof -
  have "PARSE_RE_exec (trim ''12abc'') = None"
    by code_simp
  moreover have "parseFloat (trim ''12abc'') = Fin 12"
    by code_simp
  moreover have "parseBytes (Str ''12abc'') noParseOptions = Some (ParseNumber (Fin 12))"
    by code_simp
  ultimately show ?thesis
    by blast
qed

text \<open>
  C2, amended: when the strict match fails, the fallback is \<open>Number.parseFloat\<close> of the
  trimmed string, which reads the longest leading decimal literal and ignores what follows
  it. \<open>parseBytes\<close> returns \<open>null\<close> exactly when \<open>parseFloat\<close> gives no finite
  value.
\<close>

theorem parseBytes_fallback:
  assumes "PARSE_RE_exec (trim s) = None"
  shows "parseBytes (Str s) options = None \<longleftrightarrow> \<not> Number_isFinite (parseFloat (trim s))"
  using assms
  by (auto simp: parseBytes_def parseInput_def Let_def split: option.splits parse_output.splits)

text \<open>The theorem at \<open>12abc\<close>, which is accepted, and at \<open>abc\<close>, which is not.\<close>

theorem parseBytes_fallback_witness:
  "PARSE_RE_exec (trim ''12abc'') = None \<and>
   Number_isFinite (parseFloat (trim ''12abc'')) \<and>
   parseBytes (Str ''12abc'') \<lparr>ParseBytesOptions.output = Some Output_array'\<rparr> \<noteq> None \<and>
   PARSE_RE_exec (trim ''abc'') = None \<and>
   parseFloat (trim ''abc'') = NaN \<and>
   parseBytes (Str ''abc'') noParseOptions = None"
proof -
  have h: "PARSE_RE_exec (trim ''12abc'') = None"
    by code_simp
  have f: "Number_isFinite (parseFloat (trim ''12abc''))"
    by code_simp
  have h': "PARSE_RE_exec (trim ''abc'') = None"
    by code_simp
  have f': "parseFloat (trim ''abc'') = NaN"
    by code_simp
  from parseBytes_fallback[OF h, of "\<lparr>ParseBytesOptions.output = Some Output_array'\<rparr>"] f
  have "parseBytes (Str ''12abc'') \<lparr>ParseBytesOptions.output = Some Output_array'\<rparr> \<noteq> None"
    by simp
  moreover from parseBytes_fallback[OF h', of noParseOptions] f'
  have "parseBytes (Str ''abc'') noParseOptions = None"
    by simp
  ultimately show ?thesis
    using h f h' f' by blast
qed

subsection \<open>Trailing zeros\<close>

text \<open>
  The literal \<open>2.05\<close> denotes the binary64 value nearest to \<open>41 / 20\<close>, which is
  a little below it; \<open>formatValue\<close> gets to it by its division, and renders it the
  same when it is given that value.
\<close>

lemma binary64_two_point_zero_five:
  "binary64 (41 / 20) = Fin (2308094809027379 / 1125899906842624) \<and>
   formatValue (Fin (2308094809027379 / 1125899906842624)) ''B'' (Fin 3) False [] = Inr ''2.050''"
proof -
  have "binary64 (41 / 20) = Fin (2308094809027379 / 1125899906842624)"
    by code_simp
  moreover have "formatValue (Fin (2308094809027379 / 1125899906842624)) ''B'' (Fin 3) False [] = Inr ''2.050''"
    by code_simp
  ultimately show ?thesis
    by blast
qed

text \<open>
  C3 (the code departs from it): with \<open>fixedDecimals\<close> false the trailing zeros of the
  fraction should go. \<open>FORMAT_DECIMALS_RE\<close> takes them only when no zero stands
  before the last non-zero fraction digit: 2.05 rendered with three places stays
  \<open>2.050\<close>, and 2112 bytes with five places stay \<open>2.06250KB\<close>.
\<close>

theorem formatValue_keeps_trailing_zero:
  "formatValue (Fin (41 / 20)) ''B'' (Fin 3) False [] = Inr ''2.050'' \<and>
   formatBytes (Fin (41 / 20)) (noFormatOptions\<lparr>decimalPlaces := Some (Fin 3)\<rparr>)
     = Inr (Some (FormatString ''2.050B'')) \<and>
   formatBytes (Fin 2112) (noFormatOptions\<lparr>decimalPlaces := Some (Fin 5)\<rparr>)
     = Inr (Some (FormatString ''2.06250KB''))"
proof -
  have "formatValue (Fin (41 / 20)) ''B'' (Fin 3) False [] = Inr ''2.050''"
    by code_simp
  moreover have "formatBytes (Fin (41 / 20)) (noFormatOptions\<lparr>decimalPlaces := Some (Fin 3)\<rparr>)
      = Inr (Some (FormatString ''2.050B''))"
    by code_simp
  moreover have "formatBytes (Fin 2112) (noFormatOptions\<lparr>decimalPlaces := Some (Fin 5)\<rparr>)
      = Inr (Some (FormatString ''2.06250KB''))"
    by code_simp
  ultimately show ?thesis
    by blast
qed

subsection \<open>Automatic unit selection\<close>

lemma toUnitLabel_unknown:
  assumes "toLowerCase p \<notin> set (map fst UNIT_VALUE_BY_LOWER)"
    and "toLowerCase p \<notin> set Object_prototype_keys"
  shows "toUnitLabel p = None"
  using assms by (simp add: toUnitLabel_def toByteUnit_def js_in_def)

text \<open>
  Where no unit is forced, or the forced one is neither a unit nor a name inherited from
  \<open>Object.prototype\<close>, the unit in a result of \<open>formatBytes\<close> is \<open>B\<close> for a value
  of magnitude below 1 and otherwise the label of the largest unit whose multiplier is at
  most the magnitude.
\<close>

lemma formatBytes_automatic_unit:
  assumes "FormatBytesOptions.unit options = None \<or>
      (\<exists>p. FormatBytesOptions.unit options = Some p \<and>
           toLowerCase p \<notin> set (map fst UNIT_VALUE_BY_LOWER) \<and>
           toLowerCase p \<notin> set Object_prototype_keys)"
    and "formatBytes (Fin v) options = Inr (Some (FormatArray str u))"
  shows "(\<bar>v\<bar> < 1 \<longrightarrow> u = ''B'') \<and>
         (1 \<le> \<bar>v\<bar> \<longrightarrow>
            (\<exists>i\<le>8. u = fst (UNITS ! i) \<and> 1024 ^ i \<le> \<bar>v\<bar> \<and> (\<forall>j\<le>8. 1024 ^ j \<le> \<bar>v\<bar> \<longrightarrow> j \<le> i)))"
proof -
  from assms(1)
  have "FormatBytesOptions.unit options = None \<or>
      (\<exists>p. FormatBytesOptions.unit options = Some p \<and> toUnitLabel p = None)"
    using toUnitLabel_unknown by blast
  then have scan: "resolveUnit (Math_abs (Fin v)) (FormatBytesOptions.unit options) =
      scanThresholds (Fin \<bar>v\<bar>) UNIT_THRESHOLDS"
    by (simp add: resolveUnit_automatic_scan)
  from assms(2) have u: "u = scanThresholds (Fin \<bar>v\<bar>) UNIT_THRESHOLDS"
    unfolding formatBytes_def Let_def scan
    by (auto split: sum.splits format_output.splits option.splits)
  have below: "\<bar>v\<bar> < 1 \<longrightarrow> u = ''B''"
    by (simp add: u scanThresholds_below_one)
  have largest: "1 \<le> \<bar>v\<bar> \<longrightarrow>
      (\<exists>i\<le>8. u = fst (UNITS ! i) \<and> 1024 ^ i \<le> \<bar>v\<bar> \<and> (\<forall>j\<le>8. 1024 ^ j \<le> \<bar>v\<bar> \<longrightarrow> j \<le> i))"
  proof
    assume "1 \<le> \<bar>v\<bar>"
    from scanThresholds_largest[OF this] obtain i where i: "i \<le> 8"
      "scanThresholds (Fin \<bar>v\<bar>) UNIT_THRESHOLDS = fst (UNITS ! i)" "1024 ^ i \<le> \<bar>v\<bar>"
      "i < 8 \<longrightarrow> \<bar>v\<bar> < 1024 ^ Suc i"
      by blast
    have "j \<le> i" if "j \<le> 8" "1024 ^ j \<le> \<bar>v\<bar>" for j
    proof (cases "i < 8")
      case True
      with i(4) that(2) show ?thesis by (auto intro: power_1024_above)
    next
      case False
      with that(1) i(1) show ?thesis by simp
    qed
    with i show "\<exists>i\<le>8. u = fst (UNITS ! i) \<and> 1024 ^ i \<le> \<bar>v\<bar> \<and> (\<forall>j\<le>8. 1024 ^ j \<le> \<bar>v\<bar> \<longrightarrow> j \<le> i)"
      by (auto simp: u)
  qed
  from below largest show ?thesis by blast
qed

text \<open>
  C4 (the code departs from it): \<open>constructor\<close> is none of the nine units in any letter
  case, so \<open>formatBytes\<close> should select the unit of 1048576 automatically, which is
  \<open>MB\<close>, as it does with no forced unit and with the forced unit \<open>INVALID\<close> (there
  also for the negative value, by its magnitude). It returns the unit \<open>CONSTRUCTOR\<close> and
  the value \<open>NaN\<close>.
\<close>

theorem formatBytes_forced_unit_not_a_unit:
  "toLowerCase ''constructor'' \<notin> set (map (\<lambda>(unit', power). toLowerCase unit') UNITS) \<and>
   formatBytes (Fin 1048576) (noFormatOptions\<lparr>FormatBytesOptions.output := Some Output_array\<rparr>)
     = Inr (Some (FormatArray ''1'' ''MB'')) \<and>
   formatBytes (Fin (- 1048576)) (noFormatOptions\<lparr>FormatBytesOptions.unit := Some ''INVALID'',
       FormatBytesOptions.output := Some Output_array\<rparr>)
     = Inr (Some (FormatArray ''-1'' ''MB'')) \<and>
   formatBytes (Fin 1048576) (noFormatOptions\<lparr>FormatBytesOptions.unit := Some ''constructor'',
       FormatBytesOptions.output := Some Output_array\<rparr>)
     = Inr (Some (FormatArray ''NaN'' ''CONSTRUCTOR''))"
proof -
  have "toLowerCase ''constructor'' \<notin> set (map (\<lambda>(unit', power). toLowerCase unit') UNITS)"
    by code_simp
  moreover have "formatBytes (Fin 1048576) (noFormatOptions\<lparr>FormatBytesOptions.output := Some Output_array\<rparr>)
     = Inr (Some (FormatArray ''1'' ''MB''))"
    by code_simp
  moreover have "formatBytes (Fin (- 1048576)) (noFormatOptions\<lparr>FormatBytesOptions.unit := Some ''INVALID'',
       FormatBytesOptions.output := Some Output_array\<rparr>)
     = Inr (Some (FormatArray ''-1'' ''MB''))"
    by code_simp
  moreover have "formatBytes (Fin 1048576) (noFormatOptions\<lparr>FormatBytesOptions.unit := Some ''constructor'',
       FormatBytesOptions.output := Some Output_array\<rparr>)
     = Inr (Some (FormatArray ''NaN'' ''CONSTRUCTOR''))"
    by code_simp
  ultimately show ?thesis
    by blast
qed

subsection \<open>The two unit selections\<close>

text \<open>
  C5 (the code departs from it): \<open>1024 ^ 5 - 1\<close> and \<open>1024 ^ 5\<close> are neighbours whose
  logarithms differ by \<open>2 ^ - 50\<close>, an eighth of the distance between two binary64 values
  at 34.66, so \<open>Math.log\<close> gives one value for both. With any \<open>Math.log\<close> that does,
  the selection of part_001 returns the same unit for both, and the threshold scan returns
  \<open>TB\<close> for the first and \<open>PB\<close> for the second: the two implementations differ at one
  of them.
\<close>

theorem resolveUnit_part_001_differs:
  assumes "Math_log (Fin (1024 ^ 5 - 1)) = Math_log (Fin (1024 ^ 5))"
  shows "resolveUnit (Fin (1024 ^ 5 - 1)) None = ''TB'' \<and>
         resolveUnit (Fin (1024 ^ 5)) None = ''PB'' \<and>
         resolveUnit_part_001 Math_log (Fin (1024 ^ 5 - 1)) None =
           resolveUnit_part_001 Math_log (Fin (1024 ^ 5)) None \<and>
         (resolveUnit_part_001 Math_log (Fin (1024 ^ 5 - 1)) None \<noteq> Some (resolveUnit (Fin (1024 ^ 5 - 1)) None) \<or>
          resolveUnit_part_001 Math_log (Fin (1024 ^ 5)) None \<noteq> Some (resolveUnit (Fin (1024 ^ 5)) None))"
proof -
  have tb: "resolveUnit (Fin (1024 ^ 5 - 1)) None = ''TB''"
    by (simp add: resolveUnit_def UNIT_THRESHOLDS_eval)
  have pb: "resolveUnit (Fin (1024 ^ 5)) None = ''PB''"
    by (simp add: resolveUnit_def UNIT_THRESHOLDS_eval)
  have same: "resolveUnit_part_001 Math_log (Fin (1024 ^ 5 - 1)) None =
      resolveUnit_part_001 Math_log (Fin (1024 ^ 5)) None"
    using assms by (simp add: resolveUnit_part_001_def)
  from tb pb same show ?thesis
    by auto
qed

text \<open>
  The theorem with the values that the \<open>log\<close> of fdlibm, which V8 uses, computes for
  the three arguments: \<open>1024 ^ 5 - 1\<close> gets \<open>PB\<close> from part_001 and \<open>TB\<close> from the
  scan.
\<close>

theorem resolveUnit_part_001_differs_witness:
  "Math_log_sample (Fin (1024 ^ 5 - 1)) = Math_log_sample (Fin (1024 ^ 5)) \<and>
   resolveUnit (Fin (1024 ^ 5 - 1)) None = ''TB'' \<and>
   resolveUnit_part_001 Math_log_sample (Fin (1024 ^ 5 - 1)) None = Some ''PB''"
proof -
  have h: "Math_log_sample (Fin (1024 ^ 5 - 1)) = Math_log_sample (Fin (1024 ^ 5))"
    by (simp add: Math_log_sample_def)
  have pb: "resolveUnit_part_001 Math_log_sample (Fin (1024 ^ 5)) None = Some ''PB''"
    by code_simp
  from resolveUnit_part_001_differs[OF h] pb h show ?thesis
    by simp
qed

subsection \<open>The byte count of a parsed string\<close>

text \<open>
  C6, as the specification states it, fails: a 1 followed by 300 zeros with the unit
  \<open>YB\<close> is accepted, its magnitude is finite, and the product with \<open>1024 ^ 8\<close>
  overflows; the byte count is \<open>Infinity\<close>, not the floor of the product.
\<close>

theorem parseBytes_floor_overflow:
  "parseBytes (Str (CHR ''1'' # replicate 300 (CHR ''0'') @ ''YB'')) noParseOptions
     = Some (ParseNumber PosInf)"
  by (rule parseBytes_overflow)

text \<open>
  C6, amended: for every string that \<open>parseInput\<close> accepts, with parsed magnitude \<open>m\<close>
  (a binary64 value) and a unit whose multiplier in the unit table is \<open>k\<close> (one of
  \<open>1024 ^ 0\<close>, ..., \<open>1024 ^ 8\<close>), the byte count \<open>parseBytes\<close> returns, in every
  output shape, is the floor of \<open>m * k\<close>, rounded toward minus infinity, as long as the
  magnitude of \<open>m * k\<close> is below \<open>2 ^ 1024\<close>; from there on it is the infinity of the
  sign of \<open>m\<close>.
\<close>

theorem parseBytes_floor:
  assumes "parseInput s = Some parsed"
  shows "\<exists>m k i. floatValue parsed = Fin m \<and>
           map_of UNIT_VALUE_BY_LOWER (ParsedInput.unit parsed) = Some k \<and> i \<le> 8 \<and> k = 1024 ^ i \<and>
           map_option byteCount (parseBytes (Str s) options) =
             Some (if \<bar>m * k\<bar> < 2 ^ 1024 then Fin (of_int \<lfloor>m * k\<rfloor>)
                   else if 0 < m then PosInf else NegInf)"
  using assms by (rule parseBytes_string)

text \<open>The theorem at \<open>-1.5B\<close>, which parses to \<open>- 2\<close>; \<open>1.5B\<close> parses to 1, and
  \<open>1.04PB\<close> to the floor of \<open>1024 ^ 5\<close> times the binary64 value of 1.04, which is
  one more than the floor of \<open>1.04 * 1024 ^ 5\<close>.\<close>

theorem parseBytes_floor_witness:
  "parseInput ''-1.5B'' = Some \<lparr>floatValue = Fin (- (3 / 2)), ParsedInput.unit = ''b''\<rparr> \<and>
   map_option byteCount (parseBytes (Str ''-1.5B'') noParseOptions) = Some (Fin (- 2)) \<and>
   parseBytes (Str ''1.5B'') noParseOptions = Some (ParseNumber (Fin 1)) \<and>
   parseBytes (Str ''-1.5B'') noParseOptions = Some (ParseNumber (Fin (- 2))) \<and>
   parseBytes (Str ''1.04PB'') noParseOptions = Some (ParseNumber (Fin 1170935903116329))"
proof -
  have p: "parseInput ''-1.5B'' = Some \<lparr>floatValue = Fin (- (3 / 2)), ParsedInput.unit = ''b''\<rparr>"
    by code_simp
  from parseBytes_floor[OF p, of noParseOptions] obtain m k i
    where mk: "floatValue \<lparr>floatValue = Fin (- (3 / 2)), ParsedInput.unit = ''b''\<rparr> = Fin m"
      "map_of UNIT_VALUE_BY_LOWER (ParsedInput.unit \<lparr>floatValue = Fin (- (3 / 2)), ParsedInput.unit = ''b''\<rparr>) = Some k"
      "map_option byteCount (parseBytes (Str ''-1.5B'') noParseOptions) =
         Some (if \<bar>m * k\<bar> < 2 ^ 1024 then Fin (of_int \<lfloor>m * k\<rfloor>) else if 0 < m then PosInf else NegInf)"
    by blast
  from mk(1) have m: "m = - (3 / 2)"
    by simp
  from mk(2) map_of_b have k: "k = 1"
    by simp
  have c: "\<bar>- (3 / 2) * (1::rat)\<bar> < 2 ^ 1024"
    by simp
  have f: "rat_of_int \<lfloor>- (3 / 2) * (1::rat)\<rfloor> = - 2"
    by code_simp
  from mk(3)
  have "map_option byteCount (parseBytes (Str ''-1.5B'') noParseOptions) =
      Some (if \<bar>- (3 / 2) * (1::rat)\<bar> < 2 ^ 1024 then Fin (of_int \<lfloor>- (3 / 2) * (1::rat)\<rfloor>)
            else if 0 < - (3 / 2 :: rat) then PosInf else NegInf)"
    unfolding m k .
  then have "map_option byteCount (parseBytes (Str ''-1.5B'') noParseOptions) = Some (Fin (- 2))"
    by (simp only: c if_True f)
  moreover have "parseBytes (Str ''1.5B'') noParseOptions = Some (ParseNumber (Fin 1))"
    by code_simp
  moreover have "parseBytes (Str ''-1.5B'') noParseOptions = Some (ParseNumber (Fin (- 2)))"
    by code_simp
  moreover have "parseBytes (Str ''1.04PB'') noParseOptions = Some (ParseNumber (Fin 1170935903116329))"
    by code_simp
  ultimately show ?thesis
    using p by blast
qed

subsection \<open>The byte count of every result\<close>




subsection \<open>The formatter on values that are not finite\<close>

text \<open>
  C8: for every output shape and every other option, \<open>formatBytes\<close> of NaN, of
  \<open>+Infinity\<close> and of \<open>-Infinity\<close> returns \<open>null\<close> and raises nothing (the
  result is \<open>Inr None\<close>, never an \<open>Inl\<close>).
\<close>

theorem formatBytes_not_finite:
  "formatBytes NaN options = Inr None \<and>
   formatBytes PosInf options = Inr None \<and>
   formatBytes NegInf options = Inr None"
  by (simp add: formatBytes_def)

theorem formatBytes_not_finite_witness:
  "formatBytes NaN (noFormatOptions\<lparr>FormatBytesOptions.output := Some Output_object,
       decimalPlaces := Some (Fin 200)\<rparr>) = Inr None \<and>
   formatBytes PosInf (noFormatOptions\<lparr>FormatBytesOptions.output := Some Output_object,
       decimalPlaces := Some (Fin 200)\<rparr>) = Inr None \<and>
   formatBytes NegInf (noFormatOptions\<lparr>FormatBytesOptions.output := Some Output_object,
       decimalPlaces := Some (Fin 200)\<rparr>) = Inr None"
  by (rule formatBytes_not_finite)

subsection \<open>The safe and the throwing variant\<close>

text \<open>
  C9: for every input and every output option, \<open>safeParseBytes\<close> fails exactly when
  \<open>parseBytes\<close> returns \<open>null\<close>, with a TypeError whose message is
  \<open>Invalid byte value: \<close> followed by the input in double quotes for a string and by
  the text of the Number otherwise, and succeeds with the value of \<open>parseBytes\<close>
  otherwise; \<open>parseBytesOrThrow\<close> throws that error exactly when \<open>safeParseBytes\<close>
  fails and returns the value of \<open>parseBytes\<close> otherwise. The Numbers that fail are
  NaN and the infinities, whose texts are \<open>NaN\<close>, \<open>Infinity\<close> and \<open>-Infinity\<close>.
\<close>

theorem safeParseBytes_parseBytesOrThrow:
  "safeParseBytes val options =
     (case parseBytes val options of
        None \<Rightarrow> SafeParseFailure (TypeError (''Invalid byte value: '' @
                  (case val of Str s \<Rightarrow> [CHR 0x22] @ s @ [CHR 0x22] | Num n \<Rightarrow> Number_toString n)))
      | Some r \<Rightarrow> SafeParseSuccess r) \<and>
   parseBytesOrThrow val options =
     (case safeParseBytes val options of
        SafeParseFailure e \<Rightarrow> Inl e
      | SafeParseSuccess r \<Rightarrow> Inr r) \<and>
   parseBytesOrThrow val options =
     (case parseBytes val options of
        None \<Rightarrow> Inl (TypeError (''Invalid byte value: '' @
                  (case val of Str s \<Rightarrow> [CHR 0x22] @ s @ [CHR 0x22] | Num n \<Rightarrow> Number_toString n)))
      | Some r \<Rightarrow> Inr r) \<and>
   safeParseBytes (Str ''bad'') options =
     SafeParseFailure (TypeError (''Invalid byte value: '' @ [CHR 0x22] @ ''bad'' @ [CHR 0x22])) \<and>
   safeParseBytes (Num NaN) options = SafeParseFailure (TypeError ''Invalid byte value: NaN'') \<and>
   safeParseBytes (Num PosInf) options = SafeParseFailure (TypeError ''Invalid byte value: Infinity'') \<and>
   safeParseBytes (Num NegInf) options = SafeParseFailure (TypeError ''Invalid byte value: -Infinity'')"
proof -
  have safe: "safeParseBytes v options =
     (case parseBytes v options of
        None \<Rightarrow> SafeParseFailure (TypeError (''Invalid byte value: '' @
                  (case v of Str s \<Rightarrow> [CHR 0x22] @ s @ [CHR 0x22] | Num n \<Rightarrow> Number_toString n)))
      | Some r \<Rightarrow> SafeParseSuccess r)" for v
    by (simp add: safeParseBytes_eq invalidValueError_def split: option.splits)
  have throw: "parseBytesOrThrow val options =
     (case parseBytes val options of
        None \<Rightarrow> Inl (TypeError (''Invalid byte value: '' @
                  (case val of Str s \<Rightarrow> [CHR 0x22] @ s @ [CHR 0x22] | Num n \<Rightarrow> Number_toString n)))
      | Some r \<Rightarrow> Inr r)"
    by (simp add: parseBytesOrThrow_eq safe split: option.splits)
  have "parseInput ''bad'' = None"
    by code_simp
  then have bad: "parseBytes (Str ''bad'') options = None"
    by (simp add: parseBytes_def)
  have nonfinite: "parseBytes (Num NaN) options = None" "parseBytes (Num PosInf) options = None"
    "parseBytes (Num NegInf) options = None"
    by (simp_all add: parseBytes_def)
  show ?thesis
    using safe[of val] throw parseBytesOrThrow_eq[of val options]
      safe[of "Str ''bad''"] safe[of "Num NaN"] safe[of "Num PosInf"] safe[of "Num NegInf"]
    by (simp add: bad nonfinite)
qed

text \<open>The theorem at \<open>???\<close>, at \<open>10MB\<close> and at \<open>2MB\<close> with the array shape.\<close>

theorem safeParseBytes_parseBytesOrThrow_witness:
  "parseBytesOrThrow (Str ''???'') noParseOptions =
     Inl (TypeError (''Invalid byte value: '' @ [CHR 0x22] @ ''???'' @ [CHR 0x22])) \<and>
   safeParseBytes (Str ''10MB'') noParseOptions = SafeParseSuccess (ParseNumber (Fin 10485760)) \<and>
   parseBytesOrThrow (Str ''2MB'') \<lparr>ParseBytesOptions.output = Some Output_array'\<rparr> =
     Inr (ParseArray (Fin 2097152) ''MB'')"
proof -
  have a: "parseBytes (Str ''???'') noParseOptions = None"
    by code_simp
  have b: "parseBytes (Str ''10MB'') noParseOptions = Some (ParseNumber (Fin 10485760))"
    by code_simp
  have c: "parseBytes (Str ''2MB'') \<lparr>ParseBytesOptions.output = Some Output_array'\<rparr> =
      Some (ParseArray (Fin 2097152) ''MB'')"
    by code_simp
  show ?thesis
    using safeParseBytes_parseBytesOrThrow[of "Str ''???''" noParseOptions]
      safeParseBytes_parseBytesOrThrow[of "Str ''10MB''" noParseOptions]
      safeParseBytes_parseBytesOrThrow[of "Str ''2MB''" "\<lparr>ParseBytesOptions.output = Some Output_array'\<rparr>"]
    by (simp add: a b c)
qed

subsection \<open>A forced unit that names an inherited property\<close>

text \<open>
  C10 (the code departs from it): \<open>toByteUnit\<close> tests \<open>normalized in
  UNIT_VALUE_BY_LOWER\<close>, which is also true of the properties the table inherits from
  \<open>Object.prototype\<close>. The forced unit \<open>constructor\<close> is therefore taken as a unit:
  \<open>resolveUnit\<close> returns \<open>CONSTRUCTOR\<close>, which is none of the nine labels, the
  divisor read from \<open>UNIT_VALUE_BY_LABEL\<close> is \<open>undefined\<close>, and the rendered value
  of the finite input 1 is \<open>NaN\<close>.
\<close>

theorem formatBytes_inherited_unit:
  "resolveUnit (Math_abs (Fin 1)) (Some ''constructor'') = ''CONSTRUCTOR'' \<and>
   ''CONSTRUCTOR'' \<notin> set (map fst UNITS) \<and>
   formatBytes (Fin 1) (noFormatOptions\<lparr>FormatBytesOptions.unit := Some ''constructor''\<rparr>)
     = Inr (Some (FormatString ''NaNCONSTRUCTOR'')) \<and>
   formatBytes (Fin 1) (noFormatOptions\<lparr>FormatBytesOptions.unit := Some ''constructor'',
       FormatBytesOptions.output := Some Output_array\<rparr>)
     = Inr (Some (FormatArray ''NaN'' ''CONSTRUCTOR''))"
proof -
  have "resolveUnit (Math_abs (Fin 1)) (Some ''constructor'') = ''CONSTRUCTOR''"
    by code_simp
  moreover have "''CONSTRUCTOR'' \<notin> set (map fst UNITS)"
    by code_simp
  moreover have "formatBytes (Fin 1) (noFormatOptions\<lparr>FormatBytesOptions.unit := Some ''constructor''\<rparr>)
      = Inr (Some (FormatString ''NaNCONSTRUCTOR''))"
    by code_simp
  moreover have "formatBytes (Fin 1) (noFormatOptions\<lparr>FormatBytesOptions.unit := Some ''constructor'',
        FormatBytesOptions.output := Some Output_array\<rparr>)
      = Inr (Some (FormatArray ''NaN'' ''CONSTRUCTOR''))"
    by code_simp
  ultimately show ?thesis
    by blast
qed

end
